theory Spec2Isabelle
  imports Complex_Main "HOL-Library.Word"
begin

unbundle bit_operations_syntax

section \<open>Python values and exceptions\<close>

text \<open>
  Python integers are unbounded and are modelled as \<open>int\<close>; the bit operations
  \<open>AND\<close>, \<open>OR\<close> and \<open>push_bit\<close> on \<open>int\<close> are the two's complement
  operations of Python's \<open>&\<close>, \<open>|\<close> and \<open><<\<close>. An exception is a value of
  \<open>py_error\<close>, and a computation that may raise returns \<open>py_error + 'a\<close>.

  Library code (the Modbus client, \<open>time.sleep\<close>, the Unicode tables, a configured
  regular expression) enters the model as parameters. Outside the model are the GUI calls,
  the threads, interrupts (\<open>KeyboardInterrupt\<close>), an output stream that fails, and the
  limits of memory.
\<close>

datatype py_error =
    IndexError | ValueError | TypeError | ZeroDivisionError | OverflowError | AttributeError
  | ModbusException | OtherException

definition bind_err :: "py_error + 'a \<Rightarrow> ('a \<Rightarrow> py_error + 'b) \<Rightarrow> py_error + 'b" where
  "bind_err m f = (case m of Inl e \<Rightarrow> Inl e | Inr x \<Rightarrow> f x)"

text \<open>List subscription \<open>xs[i]\<close>: a negative index counts from the end, an index out of
  range raises IndexError.\<close>

definition getitem :: "'a list \<Rightarrow> int \<Rightarrow> py_error + 'a" where
  "getitem xs i =
     (if 0 \<le> i \<and> i < int (length xs) then Inr (xs ! nat i)
      else if i < 0 \<and> - int (length xs) \<le> i then Inr (xs ! nat (int (length xs) + i))
      else Inl IndexError)"

text \<open>\<open>range(start, stop, 2)\<close>, the index sequence of the pairing loops.\<close>

function range_step2 :: "int \<Rightarrow> int \<Rightarrow> int list" where
  "range_step2 start stop = (if start < stop then start # range_step2 (start + 2) stop else [])"
  by pat_completeness auto
termination
  by (relation "measure (\<lambda>(start, stop). nat (stop - start))") auto

declare range_step2.simps [simp del]

section \<open>Register decoder (modbus_probe.py)\<close>

definition decode_u16_list :: "int list \<Rightarrow> int list" where
  "decode_u16_list registers = map (\<lambda>r. r AND 0xFFFF) registers"

definition s16_of :: "int \<Rightarrow> int" where
  "s16_of r = (let v = r AND 0xFFFF in if v AND 0x8000 \<noteq> 0 then v - 0x10000 else v)"

definition decode_s16_list :: "int list \<Rightarrow> int list" where
  "decode_s16_list registers = map s16_of registers"

text \<open>The tuple \<open>(registers[i], registers[i + 1]) if big_endian else
  (registers[i + 1], registers[i])\<close>, evaluated left to right.\<close>

definition hi_lo :: "int list \<Rightarrow> bool \<Rightarrow> int \<Rightarrow> py_error + (int \<times> int)" where
  "hi_lo registers big_endian i =
     (if big_endian
      then bind_err (getitem registers i) (\<lambda>a. bind_err (getitem registers (i + 1)) (\<lambda>b. Inr (a, b)))
      else bind_err (getitem registers (i + 1)) (\<lambda>a. bind_err (getitem registers i) (\<lambda>b. Inr (a, b))))"

definition combine_u32 :: "int \<Rightarrow> int \<Rightarrow> int" where
  "combine_u32 hi lo = push_bit 16 (hi AND 0xFFFF) OR (lo AND 0xFFFF)"

definition to_s32 :: "int \<Rightarrow> int" where
  "to_s32 u = (if u AND 0x80000000 \<noteq> 0 then u - 0x100000000 else u)"

text \<open>The body of the \<open>for i in range(0, len(registers) - 1, 2)\<close> loops: the indices
  still to visit and the list \<open>values\<close> built so far.\<close>

fun u32_loop :: "int list \<Rightarrow> bool \<Rightarrow> int list \<Rightarrow> int list \<Rightarrow> py_error + int list" where
  "u32_loop registers big_endian [] values = Inr values"
| "u32_loop registers big_endian (i # rest) values =
     bind_err (hi_lo registers big_endian i)
       (\<lambda>(hi, lo). u32_loop registers big_endian rest (values @ [combine_u32 hi lo]))"

definition decode_u32_pairs :: "int list \<Rightarrow> bool \<Rightarrow> py_error + int list" where
  "decode_u32_pairs registers big_endian =
     u32_loop registers big_endian (range_step2 0 (int (length registers) - 1)) []"

fun s32_loop :: "int list \<Rightarrow> bool \<Rightarrow> int list \<Rightarrow> int list \<Rightarrow> py_error + int list" where
  "s32_loop registers big_endian [] values = Inr values"
| "s32_loop registers big_endian (i # rest) values =
     bind_err (hi_lo registers big_endian i)
       (\<lambda>(hi, lo). s32_loop registers big_endian rest (values @ [to_s32 (combine_u32 hi lo)]))"

definition decode_s32_pairs :: "int list \<Rightarrow> bool \<Rightarrow> py_error + int list" where
  "decode_s32_pairs registers big_endian =
     s32_loop registers big_endian (range_step2 0 (int (length registers) - 1)) []"

text \<open>The value the loops append for the pair starting at register \<open>2 * k\<close>.\<close>

definition pair_at :: "int list \<Rightarrow> bool \<Rightarrow> nat \<Rightarrow> int" where
  "pair_at registers big_endian k =
     (if big_endian then combine_u32 (registers ! (2 * k)) (registers ! (2 * k + 1))
      else combine_u32 (registers ! (2 * k + 1)) (registers ! (2 * k)))"

text \<open>Python strings are sequences of Unicode code points; a literal of the source is
  written \<open>str_lit ''...''\<close>.\<close>

type_synonym pystr = "nat list"

definition str_lit :: "string \<Rightarrow> pystr" where
  "str_lit s = map of_char s"

text \<open>\<open>pretty_candidates\<close>: the parts that are joined with \<open>" | "\<close>, each kept as
  its label and the (sliced) list that the f-string prints.\<close>

definition pretty_candidates :: "int list \<Rightarrow> py_error + (string \<times> int list) list" where
  "pretty_candidates registers =
     (let u16 = decode_u16_list registers; s16 = decode_s16_list registers in
      bind_err (decode_u32_pairs registers True) (\<lambda>u32_be.
      bind_err (decode_u32_pairs registers False) (\<lambda>u32_le.
      bind_err (decode_s32_pairs registers True) (\<lambda>s32_be.
      bind_err (decode_s32_pairs registers False) (\<lambda>s32_le.
        Inr ([(''u16'', take 6 u16), (''s16'', take 6 s16)]
           @ (if u32_be \<noteq> [] then [(''u32_BE'', take 3 u32_be)] else [])
           @ (if u32_le \<noteq> [] then [(''u32_LE'', take 3 u32_le)] else [])
           @ (if s32_be \<noteq> [] then [(''s32_BE'', take 3 s32_be)] else [])
           @ (if s32_le \<noteq> [] then [(''s32_LE'', take 3 s32_le)] else [])))))))"

section \<open>Register probe (modbus_probe.py)\<close>

text \<open>
  The Modbus client and \<open>time.sleep\<close> are library code. The client is a state
  \<open>'c\<close> with its two read methods; a read returns a response object, or raises
  \<open>ModbusException\<close>, or raises another exception (a serial timeout). Of a response
  the probe looks at two attributes, each of which may be absent (\<open>hasattr\<close>):
  \<open>isError()\<close> and \<open>registers\<close>. \<open>sleep_raises d\<close> is the exception that
  \<open>time.sleep(d)\<close> raises, if any (ValueError for a negative delay).
\<close>

record response =
  resp_isError :: "bool option"
  resp_registers :: "int list option"

datatype read_outcome = Returned response | RaisedModbusException | RaisedException

record ('c, 'd) modbus_lib =
  read_holding_registers :: "'c \<Rightarrow> int \<Rightarrow> int \<Rightarrow> int \<Rightarrow> read_outcome \<times> 'c"
  read_input_registers :: "'c \<Rightarrow> int \<Rightarrow> int \<Rightarrow> int \<Rightarrow> read_outcome \<times> 'c"
  sleep_raises :: "'d \<Rightarrow> py_error option"

text \<open>What the sweep does to the outside, in order: a read request (holding or input) with
  its unit, address and count; a printed \<open>OK\<close> line with its unit, address, count, the
  first six raw values and the candidate parts; a call of \<open>time.sleep\<close>.\<close>

datatype register_kind = Holding | Input

datatype 'd probe_event =
    ReadAttempt register_kind int int int
  | PrintOk int int int "int list" "(string \<times> int list) list"
  | Sleep 'd

record ('c, 'd) probe_state =
  results :: "(int \<times> int \<times> int \<times> int list) list"
  events :: "'d probe_event list"
  client :: 'c

text \<open>The condition \<open>hasattr(resp, 'isError') and not resp.isError() and
  hasattr(resp, 'registers') and resp.registers\<close>: the registers when it holds.\<close>

definition usable_registers :: "response \<Rightarrow> int list option" where
  "usable_registers resp =
     (if resp_isError resp = Some False
      then (case resp_registers resp of None \<Rightarrow> None | Some rs \<Rightarrow> if rs \<noteq> [] then Some rs else None)
      else None)"

text \<open>The \<open>try\<close> statement of the loop body: one read, and on a usable response the
  append to \<open>results\<close> and the printed line. An exception raised inside (by the read,
  or while formatting the line) is swallowed by the \<open>except\<close> clauses.\<close>

definition try_read ::
  "('c, 'd) modbus_lib \<Rightarrow> pystr \<Rightarrow> int \<Rightarrow> int \<Rightarrow> int \<Rightarrow> ('c, 'd) probe_state \<Rightarrow> ('c, 'd) probe_state" where
  "try_read env kind unit address count st =
     (let holding = (kind = str_lit ''holding'');
          (outcome, c) = (if holding then read_holding_registers env (client st) address count unit
                          else read_input_registers env (client st) address count unit);
          st1 = st\<lparr>client := c,
                   events := events st @ [ReadAttempt (if holding then Holding else Input) unit address count]\<rparr>
      in case outcome of
           Returned resp \<Rightarrow>
             (case usable_registers resp of
                Some rs \<Rightarrow>
                  (let st2 = st1\<lparr>results := results st1 @ [(unit, address, count, rs)]\<rparr>
                   in case pretty_candidates rs of
                        Inr parts \<Rightarrow> st2\<lparr>events := events st2 @ [PrintOk unit address count (take 6 rs) parts]\<rparr>
                      | Inl e \<Rightarrow> st2)
              | None \<Rightarrow> st1)
         | RaisedModbusException \<Rightarrow> st1
         | RaisedException \<Rightarrow> st1)"

text \<open>The loop body: the \<open>try\<close> statement, then \<open>time.sleep(delay)\<close>, which stands
  outside the \<open>try\<close>: an exception of the sleep leaves the sweep, and is returned here
  with the state reached.\<close>

definition attempt ::
  "('c, 'd) modbus_lib \<Rightarrow> pystr \<Rightarrow> 'd \<Rightarrow> int \<Rightarrow> int \<Rightarrow> int \<Rightarrow> ('c, 'd) probe_state
     \<Rightarrow> (py_error \<times> ('c, 'd) probe_state) + ('c, 'd) probe_state" where
  "attempt env kind delay unit address count st =
     (let st1 = try_read env kind unit address count st;
          st2 = st1\<lparr>events := events st1 @ [Sleep delay]\<rparr>
      in case sleep_raises env delay of Some e \<Rightarrow> Inl (e, st2) | None \<Rightarrow> Inr st2)"

fun counts_loop ::
  "('c, 'd) modbus_lib \<Rightarrow> pystr \<Rightarrow> 'd \<Rightarrow> int \<Rightarrow> int \<Rightarrow> int list \<Rightarrow> ('c, 'd) probe_state
     \<Rightarrow> (py_error \<times> ('c, 'd) probe_state) + ('c, 'd) probe_state" where
  "counts_loop env kind delay unit address [] st = Inr st"
| "counts_loop env kind delay unit address (count # rest) st =
     (case attempt env kind delay unit address count st of
        Inl x \<Rightarrow> Inl x
      | Inr st' \<Rightarrow> counts_loop env kind delay unit address rest st')"

fun address_loop ::
  "('c, 'd) modbus_lib \<Rightarrow> pystr \<Rightarrow> 'd \<Rightarrow> int \<Rightarrow> int list \<Rightarrow> int list \<Rightarrow> ('c, 'd) probe_state
     \<Rightarrow> (py_error \<times> ('c, 'd) probe_state) + ('c, 'd) probe_state" where
  "address_loop env kind delay unit [] counts st = Inr st"
| "address_loop env kind delay unit (address # rest) counts st =
     (case counts_loop env kind delay unit address counts st of
        Inl x \<Rightarrow> Inl x
      | Inr st' \<Rightarrow> address_loop env kind delay unit rest counts st')"

fun units_loop ::
  "('c, 'd) modbus_lib \<Rightarrow> pystr \<Rightarrow> 'd \<Rightarrow> int list \<Rightarrow> int list \<Rightarrow> int list \<Rightarrow> ('c, 'd) probe_state
     \<Rightarrow> (py_error \<times> ('c, 'd) probe_state) + ('c, 'd) probe_state" where
  "units_loop env kind delay [] addresses counts st = Inr st"
| "units_loop env kind delay (unit # rest) addresses counts st =
     (case address_loop env kind delay unit addresses counts st of
        Inl x \<Rightarrow> Inl x
      | Inr st' \<Rightarrow> units_loop env kind delay rest addresses counts st')"

text \<open>\<open>probe\<close>: \<open>range(address_start, address_end + 1)\<close> is the list
  \<open>[address_start..address_end]\<close>. The source returns \<open>results\<close>; the model returns
  the whole final state, of which \<open>results\<close> is a field.\<close>

definition probe ::
  "('c, 'd) modbus_lib \<Rightarrow> 'c \<Rightarrow> int list \<Rightarrow> int \<Rightarrow> int \<Rightarrow> int list \<Rightarrow> 'd \<Rightarrow> pystr
     \<Rightarrow> (py_error \<times> ('c, 'd) probe_state) + ('c, 'd) probe_state" where
  "probe env c units address_start address_end counts delay kind =
     units_loop env kind delay units [address_start..address_end] counts
       \<lparr>results = [], events = [], client = c\<rparr>"

text \<open>The triples of a sweep in the nested order of the three loops, the read attempts
  of an event trace, and the trace without its printed lines.\<close>

definition sweep_triples :: "int list \<Rightarrow> int \<Rightarrow> int \<Rightarrow> int list \<Rightarrow> (int \<times> int \<times> int) list" where
  "sweep_triples units address_start address_end counts =
     concat (map (\<lambda>unit. concat (map (\<lambda>address. map (\<lambda>count. (unit, address, count)) counts)
                                    [address_start..address_end])) units)"

fun attempts :: "'d probe_event list \<Rightarrow> (int \<times> int \<times> int) list" where
  "attempts [] = []"
| "attempts (ReadAttempt k unit address count # es) = (unit, address, count) # attempts es"
| "attempts (e # es) = attempts es"

fun is_print :: "'d probe_event \<Rightarrow> bool" where
  "is_print (PrintOk unit address count raw parts) = True"
| "is_print e = False"

definition reached :: "(py_error \<times> ('c, 'd) probe_state) + ('c, 'd) probe_state \<Rightarrow> ('c, 'd) probe_state" where
  "reached r = (case r of Inl (e, st) \<Rightarrow> st | Inr st \<Rightarrow> st)"

text \<open>The three nested loops visit the triples of \<open>sweep_triples\<close> one after the
  other; \<open>triples_loop\<close> is that single loop, and \<open>attempt_events\<close> is what one
  pass of it shows to the outside apart from a printed line.\<close>

fun triples_loop ::
  "('c, 'd) modbus_lib \<Rightarrow> pystr \<Rightarrow> 'd \<Rightarrow> (int \<times> int \<times> int) list \<Rightarrow> ('c, 'd) probe_state
     \<Rightarrow> (py_error \<times> ('c, 'd) probe_state) + ('c, 'd) probe_state" where
  "triples_loop env kind delay [] st = Inr st"
| "triples_loop env kind delay ((unit, address, count) # rest) st =
     (case attempt env kind delay unit address count st of
        Inl x \<Rightarrow> Inl x
      | Inr st' \<Rightarrow> triples_loop env kind delay rest st')"

definition attempt_events :: "pystr \<Rightarrow> 'd \<Rightarrow> int \<times> int \<times> int \<Rightarrow> 'd probe_event list" where
  "attempt_events kind delay t =
     (case t of (unit, address, count) \<Rightarrow>
        [ReadAttempt (if kind = str_lit ''holding'' then Holding else Input) unit address count, Sleep delay])"

text \<open>An environment for the examples: the client counts its requests; a holding read of
  unit 1 at address 0 times out, every other holding read returns one register; every
  input read raises a Modbus exception; a negative delay makes \<open>time.sleep\<close> raise.\<close>

definition timeout_env :: "(nat, real) modbus_lib" where
  "timeout_env =
     \<lparr>read_holding_registers = (\<lambda>c address count unit.
          (if unit = 1 \<and> address = 0 then RaisedException
           else Returned \<lparr>resp_isError = Some False, resp_registers = Some [address + 7]\<rparr>, c + 1)),
      read_input_registers = (\<lambda>c address count unit. (RaisedModbusException, c + 1)),
      sleep_raises = (\<lambda>d. if d < 0 then Some ValueError else None)\<rparr>"

section \<open>Python string operations\<close>

text \<open>The characters that \<open>str.strip()\<close> removes (\<open>str.isspace\<close>).\<close>

definition is_space :: "nat \<Rightarrow> bool" where
  "is_space c =
     ((9 \<le> c \<and> c \<le> 13) \<or> (28 \<le> c \<and> c \<le> 32) \<or> c = 0x85 \<or> c = 0xA0 \<or> c = 0x1680
      \<or> (0x2000 \<le> c \<and> c \<le> 0x200A) \<or> c = 0x2028 \<or> c = 0x2029 \<or> c = 0x202F
      \<or> c = 0x205F \<or> c = 0x3000)"

definition strip :: "pystr \<Rightarrow> pystr" where
  "strip s = rev (dropWhile is_space (rev (dropWhile is_space s)))"

text \<open>\<open>s.split(sep)\<close> for a separator of one character: always at least one part.\<close>

fun split_on :: "nat \<Rightarrow> pystr \<Rightarrow> pystr list" where
  "split_on sep [] = [[]]"
| "split_on sep (c # cs) =
     (if c = sep then [] # split_on sep cs
      else (case split_on sep cs of [] \<Rightarrow> [[c]] | p # ps \<Rightarrow> (c # p) # ps))"

text \<open>\<open>s.split(sep, 1)\<close>: split at the first separator only.\<close>

definition split_once :: "nat \<Rightarrow> pystr \<Rightarrow> pystr list" where
  "split_once sep s =
     (if sep \<in> set s then [takeWhile (\<lambda>c. c \<noteq> sep) s, drop 1 (dropWhile (\<lambda>c. c \<noteq> sep) s)]
      else [s])"

text \<open>The unpacking \<open>a, b = xs\<close>: ValueError unless there are exactly two values.\<close>

fun unpack2 :: "'a list \<Rightarrow> py_error + ('a \<times> 'a)" where
  "unpack2 [a, b] = Inr (a, b)"
| "unpack2 xs = Inl ValueError"

text \<open>
  \<open>int(s)\<close> and \<open>float(s)\<close> read decimal digits of any script. The decimal value of an
  ASCII character is fixed here; for the other code points it is the table
  \<open>unicodedata.decimal\<close>, a parameter \<open>udec\<close> of the model.
\<close>

definition digit_of :: "(nat \<Rightarrow> nat option) \<Rightarrow> nat \<Rightarrow> nat option" where
  "digit_of udec c =
     (if c < 128 then (if 48 \<le> c \<and> c \<le> 57 then Some (c - 48) else None) else udec c)"

text \<open>The whitespace that \<open>int\<close> and \<open>float\<close> skip around a number: as \<open>strip\<close>,
  but not the four ASCII separators \<open>0x1C .. 0x1F\<close>.\<close>

definition num_space :: "nat \<Rightarrow> bool" where
  "num_space c = (is_space c \<and> \<not> (28 \<le> c \<and> c \<le> 31))"

text \<open>A run of digits in which single underscores may stand between two digits.
  \<open>prev\<close> tells that the character before was a digit.\<close>

fun parse_digits :: "(nat \<Rightarrow> nat option) \<Rightarrow> bool \<Rightarrow> nat \<Rightarrow> pystr \<Rightarrow> nat option" where
  "parse_digits udec prev acc [] = (if prev then Some acc else None)"
| "parse_digits udec prev acc (c # cs) =
     (if c = 95 then (if prev then parse_digits udec False acc cs else None)
      else (case digit_of udec c of
              Some d \<Rightarrow> parse_digits udec True (10 * acc + d) cs
            | None \<Rightarrow> None))"

text \<open>The interpreter refuses to convert a string of more than
  \<open>sys.get_int_max_str_digits()\<close> digits to an integer; 4300 is its default.\<close>

definition int_max_str_digits :: nat where
  "int_max_str_digits = 4300"

text \<open>\<open>int(s)\<close> for a string, base 10: optional whitespace, an optional sign, digits,
  optional whitespace. The digits are counted without the underscores between them
  (leading zeros count), and ValueError is raised when there are more than
  \<open>int_max_str_digits\<close>.\<close>

definition py_int :: "(nat \<Rightarrow> nat option) \<Rightarrow> pystr \<Rightarrow> py_error + int" where
  "py_int udec s =
     (let s1 = dropWhile num_space s;
          (negative, s2) = (case s1 of [] \<Rightarrow> (False, s1)
                             | c # r \<Rightarrow> if c = 45 then (True, r) else if c = 43 then (False, r) else (False, s1));
          s3 = rev (dropWhile num_space (rev s2))
      in case parse_digits udec False 0 s3 of
           None \<Rightarrow> Inl ValueError
         | Some n \<Rightarrow>
             if int_max_str_digits < length (filter (\<lambda>c. c \<noteq> 95) s3) then Inl ValueError
             else Inr (if negative then - int n else int n))"

section \<open>Unit specifications (modbus_probe.py, parse_units)\<close>

fun parse_units_loop :: "(nat \<Rightarrow> nat option) \<Rightarrow> pystr list \<Rightarrow> int list \<Rightarrow> py_error + int list" where
  "parse_units_loop udec [] units = Inr units"
| "parse_units_loop udec (part0 # rest) units =
     (let part = strip part0 in
      if 45 \<in> set part
      then bind_err (unpack2 (split_once 45 part)) (\<lambda>(lo, hi).
           bind_err (py_int udec lo) (\<lambda>l.
           bind_err (py_int udec hi) (\<lambda>h.
             parse_units_loop udec rest (units @ [l..h]))))
      else bind_err (py_int udec part) (\<lambda>u. parse_units_loop udec rest (units @ [u])))"

definition parse_units :: "(nat \<Rightarrow> nat option) \<Rightarrow> pystr \<Rightarrow> py_error + int list" where
  "parse_units udec units_str =
     bind_err (parse_units_loop udec (split_on 44 units_str) [])
       (\<lambda>units. Inr (sort (remdups units)))"











section \<open>Python floats\<close>

text \<open>
  A Python float is an IEEE 754 binary64 value: a finite number (a rational, \<open>Finite 0\<close>
  being \<open>+0.0\<close>), negative zero, an infinity or NaN. Results are rounded to the nearest
  binary64 value, ties to even, by \<open>to_double\<close>.
\<close>

datatype pyfloat = Finite rat | NegZero | PosInf | NegInf | NaN

fun nat_bits :: "nat \<Rightarrow> nat" where
  "nat_bits n = (if n = 0 then 0 else Suc (nat_bits (n div 2)))"

declare nat_bits.simps [simp del]

definition pow2 :: "int \<Rightarrow> rat" where
  "pow2 e = (if 0 \<le> e then 2 ^ nat e else 1 / 2 ^ nat (- e))"

text \<open>For \<open>q > 0\<close>, the exponent \<open>e\<close> with \<open>2 ^ e \<le> q < 2 ^ (e + 1)\<close>.\<close>

definition floor_log2 :: "rat \<Rightarrow> int" where
  "floor_log2 q =
     (let (a, b) = quotient_of q;
          d = int (nat_bits (nat a)) - int (nat_bits (nat b))
      in if pow2 d \<le> q then d else d - 1)"

definition round_half_even :: "rat \<Rightarrow> int" where
  "round_half_even x =
     (let f = \<lfloor>x\<rfloor>; r = x - of_int f
      in if r < 1 / 2 then f else if 1 / 2 < r then f + 1 else if even f then f else f + 1)"

text \<open>The binary64 value nearest to a magnitude \<open>m \<ge> 0\<close> with the given sign: 53
  significant bits, the smallest exponent that of the subnormal numbers, overflow to
  infinity.\<close>

definition signed_zero :: "bool \<Rightarrow> pyfloat" where
  "signed_zero negative = (if negative then NegZero else Finite 0)"

definition to_double :: "bool \<Rightarrow> rat \<Rightarrow> pyfloat" where
  "to_double negative m =
     (if m = 0 then signed_zero negative
      else (let q = max (floor_log2 m - 52) (- 1074);
                r = of_int (round_half_even (m / pow2 q)) * pow2 q
            in if pow2 1024 \<le> r then (if negative then NegInf else PosInf)
               else if r = 0 then signed_zero negative
               else Finite (if negative then - r else r)))"

definition is_negative :: "pyfloat \<Rightarrow> bool" where
  "is_negative x = (case x of Finite q \<Rightarrow> q < 0 | NegZero \<Rightarrow> True | NegInf \<Rightarrow> True | _ \<Rightarrow> False)"

definition magnitude :: "pyfloat \<Rightarrow> rat" where
  "magnitude x = (case x of Finite q \<Rightarrow> \<bar>q\<bar> | _ \<Rightarrow> 0)"

definition is_zero :: "pyfloat \<Rightarrow> bool" where
  "is_zero x = (x = Finite 0 \<or> x = NegZero)"

definition is_infinite :: "pyfloat \<Rightarrow> bool" where
  "is_infinite x = (x = PosInf \<or> x = NegInf)"

text \<open>\<open>float(i)\<close> for an integer: OverflowError when the nearest value is not finite.\<close>

definition float_of_int :: "int \<Rightarrow> py_error + pyfloat" where
  "float_of_int i =
     (case to_double (i < 0) (of_int \<bar>i\<bar>) of
        PosInf \<Rightarrow> Inl OverflowError
      | NegInf \<Rightarrow> Inl OverflowError
      | x \<Rightarrow> Inr x)"

text \<open>\<open>x / y\<close> on floats: ZeroDivisionError for a zero divisor, the IEEE quotient
  otherwise.\<close>

definition truediv :: "pyfloat \<Rightarrow> pyfloat \<Rightarrow> py_error + pyfloat" where
  "truediv x y =
     (if is_zero y then Inl ZeroDivisionError
      else if x = NaN \<or> y = NaN then Inr NaN
      else if is_infinite x then
             (if is_infinite y then Inr NaN
              else Inr (if is_negative x \<noteq> is_negative y then NegInf else PosInf))
      else if is_infinite y then Inr (signed_zero (is_negative x \<noteq> is_negative y))
      else Inr (to_double (is_negative x \<noteq> is_negative y) (magnitude x / magnitude y)))"

text \<open>The decimal digits of a natural number, and the format \<open>f"{x:.pf}"\<close>: the exact
  value rounded to \<open>p\<close> decimals, ties to even.\<close>

fun nat_str :: "nat \<Rightarrow> pystr" where
  "nat_str n = (if n < 10 then [48 + n] else nat_str (n div 10) @ [48 + n mod 10])"

declare nat_str.simps [simp del]

definition fixed_str :: "bool \<Rightarrow> rat \<Rightarrow> nat \<Rightarrow> pystr" where
  "fixed_str negative m p =
     (let n = nat (round_half_even (m * 10 ^ p));
          fs = nat_str (n mod 10 ^ p)
      in (if negative then [45] else []) @ nat_str (n div 10 ^ p)
         @ (if p = 0 then [] else [46] @ replicate (p - length fs) 48 @ fs))"

definition format_fixed :: "nat \<Rightarrow> pyfloat \<Rightarrow> pystr" where
  "format_fixed p x =
     (case x of
        NaN \<Rightarrow> str_lit ''nan''
      | PosInf \<Rightarrow> str_lit ''inf''
      | NegInf \<Rightarrow> str_lit ''-inf''
      | NegZero \<Rightarrow> fixed_str True 0 p
      | Finite q \<Rightarrow> fixed_str (q < 0) \<bar>q\<bar> p)"

text \<open>A run of decimal digits in which single underscores may stand between two digits:
  the digit values read, and the rest of the string.\<close>

fun digit_run :: "(nat \<Rightarrow> nat option) \<Rightarrow> pystr \<Rightarrow> nat list \<times> pystr" where
  "digit_run udec [] = ([], [])"
| "digit_run udec (c # cs) =
     (case digit_of udec c of
        None \<Rightarrow> ([], c # cs)
      | Some d \<Rightarrow>
          (case cs of
             u # c2 # cs' \<Rightarrow>
               if u = 95 \<and> digit_of udec c2 \<noteq> None
               then (let (ds, r) = digit_run udec (c2 # cs') in (d # ds, r))
               else (let (ds, r) = digit_run udec cs in (d # ds, r))
           | _ \<Rightarrow> (let (ds, r) = digit_run udec cs in (d # ds, r))))"

definition digits_nat :: "nat list \<Rightarrow> nat" where
  "digits_nat ds = foldl (\<lambda>a d. 10 * a + d) 0 ds"

definition ascii_lower :: "nat \<Rightarrow> nat" where
  "ascii_lower c = (if 65 \<le> c \<and> c \<le> 90 then c + 32 else c)"

text \<open>The exponent part of a float literal: nothing, or \<open>e\<close> or \<open>E\<close>, an optional
  sign and a run of digits, up to the end of the string.\<close>

definition exponent_of :: "(nat \<Rightarrow> nat option) \<Rightarrow> pystr \<Rightarrow> int option" where
  "exponent_of udec s =
     (case s of
        [] \<Rightarrow> Some 0
      | c # t \<Rightarrow>
          if c = 101 \<or> c = 69 then
            (let (negative, t') = (case t of [] \<Rightarrow> (False, t)
                                   | g # r \<Rightarrow> if g = 45 then (True, r) else if g = 43 then (False, r) else (False, t));
                 (ds, rest) = digit_run udec t'
             in if ds \<noteq> [] \<and> rest = [] then Some (if negative then - int (digits_nat ds) else int (digits_nat ds))
                else None)
          else None)"

definition pow10 :: "int \<Rightarrow> rat" where
  "pow10 e = (if 0 \<le> e then 10 ^ nat e else 1 / 10 ^ nat (- e))"

text \<open>\<open>float(s)\<close> for a string: whitespace around, an optional sign, then \<open>inf\<close>,
  \<open>infinity\<close> or \<open>nan\<close> in any case, or a decimal literal with at least one digit
  before or after the point and an optional exponent. The value is the nearest binary64
  value of the number written.\<close>

definition py_float :: "(nat \<Rightarrow> nat option) \<Rightarrow> pystr \<Rightarrow> py_error + pyfloat" where
  "py_float udec s =
     (let s1 = dropWhile num_space s;
          (negative, s2) = (case s1 of [] \<Rightarrow> (False, s1)
                             | c # r \<Rightarrow> if c = 45 then (True, r) else if c = 43 then (False, r) else (False, s1));
          s3 = rev (dropWhile num_space (rev s2));
          word = map ascii_lower s3
      in if word = str_lit ''inf'' \<or> word = str_lit ''infinity'' then Inr (if negative then NegInf else PosInf)
         else if word = str_lit ''nan'' then Inr NaN
         else (let (int_ds, r1) = digit_run udec s3;
                   (frac_ds, r2) = (case r1 of [] \<Rightarrow> ([], r1)
                                     | c # t \<Rightarrow> if c = 46 then digit_run udec t else ([], r1))
               in if int_ds = [] \<and> frac_ds = [] then Inl ValueError
                  else (case exponent_of udec r2 of
                          None \<Rightarrow> Inl ValueError
                        | Some e \<Rightarrow>
                            Inr (to_double negative
                                   (of_nat (digits_nat (int_ds @ frac_ds)) * pow10 (e - int (length frac_ds)))))))"

section \<open>Bytes, patterns and the environment\<close>

text \<open>\<open>data.decode(errors='ignore')\<close>: UTF-8 decoding of a byte string (bytes as numbers
  below 256) that drops every byte which is not part of a well-formed sequence.\<close>

definition continuation :: "nat \<Rightarrow> bool" where
  "continuation b = (0x80 \<le> b \<and> b \<le> 0xBF)"

definition second_ok :: "nat \<Rightarrow> nat \<Rightarrow> bool" where
  "second_ok b c =
     (if b = 0xE0 then 0xA0 \<le> c \<and> c \<le> 0xBF
      else if b = 0xED then 0x80 \<le> c \<and> c \<le> 0x9F
      else if b = 0xF0 then 0x90 \<le> c \<and> c \<le> 0xBF
      else if b = 0xF4 then 0x80 \<le> c \<and> c \<le> 0x8F
      else continuation c)"

fun utf8_decode_ignore :: "nat list \<Rightarrow> pystr" where
  "utf8_decode_ignore [] = []"
| "utf8_decode_ignore (b # bs) =
     (if b < 0x80 then b # utf8_decode_ignore bs
      else if 0xC2 \<le> b \<and> b \<le> 0xDF \<and> 1 \<le> length bs \<and> continuation (bs ! 0)
        then ((b - 0xC0) * 64 + (bs ! 0 - 0x80)) # utf8_decode_ignore (drop 1 bs)
      else if 0xE0 \<le> b \<and> b \<le> 0xEF \<and> 2 \<le> length bs \<and> second_ok b (bs ! 0) \<and> continuation (bs ! 1)
        then ((b - 0xE0) * 4096 + (bs ! 0 - 0x80) * 64 + (bs ! 1 - 0x80)) # utf8_decode_ignore (drop 2 bs)
      else if 0xF0 \<le> b \<and> b \<le> 0xF4 \<and> 3 \<le> length bs \<and> second_ok b (bs ! 0) \<and> continuation (bs ! 1)
              \<and> continuation (bs ! 2)
        then ((b - 0xF0) * 262144 + (bs ! 0 - 0x80) * 4096 + (bs ! 1 - 0x80) * 64 + (bs ! 2 - 0x80))
               # utf8_decode_ignore (drop 3 bs)
      else utf8_decode_ignore bs)"

text \<open>What \<open>pattern.search(text)\<close> and then \<open>m.group(1)\<close> give: no match; or a match
  whose group 1 is a string, is unset (\<open>None\<close>), or does not exist in the pattern.\<close>

datatype group1 = Captured pystr | Unset | NoSuchGroup

datatype search_result = NoMatch | Match group1

text \<open>The default pattern \<open>([-+]?\d+(?:\.\d+)?)\<close>. \<open>number_at s\<close> is its match at the
  start of \<open>s\<close>: an optional sign, digits, and a point with digits after it when there
  are any; \<open>default_search\<close> finds the leftmost match.\<close>

definition is_digit :: "(nat \<Rightarrow> nat option) \<Rightarrow> nat \<Rightarrow> bool" where
  "is_digit udec c = (digit_of udec c \<noteq> None)"

definition number_at :: "(nat \<Rightarrow> nat option) \<Rightarrow> pystr \<Rightarrow> pystr option" where
  "number_at udec s =
     (let (sign, r) = (case s of [] \<Rightarrow> ([], s)
                        | c # t \<Rightarrow> if c = 45 \<or> c = 43 then ([c], t) else ([], s));
          ds = takeWhile (is_digit udec) r;
          r2 = dropWhile (is_digit udec) r
      in if ds = [] then None
         else (case r2 of
                 [] \<Rightarrow> Some (sign @ ds)
               | c # t \<Rightarrow>
                   if c = 46 \<and> takeWhile (is_digit udec) t \<noteq> []
                   then Some (sign @ ds @ [46] @ takeWhile (is_digit udec) t)
                   else Some (sign @ ds)))"

fun default_search :: "(nat \<Rightarrow> nat option) \<Rightarrow> pystr \<Rightarrow> search_result" where
  "default_search udec [] = NoMatch"
| "default_search udec (c # cs) =
     (case number_at udec (c # cs) of
        Some g \<Rightarrow> Match (Captured g)
      | None \<Rightarrow> default_search udec cs)"

text \<open>\<open>os.getenv(name, default)\<close> on an environment, and \<open>s.lower()\<close>: ASCII letters
  are lowered here, a string with other characters by the library's table \<open>ulower\<close>.\<close>

definition getenv :: "(pystr \<rightharpoonup> pystr) \<Rightarrow> string \<Rightarrow> string \<Rightarrow> pystr" where
  "getenv env name dflt = (case env (str_lit name) of Some v \<Rightarrow> v | None \<Rightarrow> str_lit dflt)"

definition py_lower :: "(pystr \<Rightarrow> pystr) \<Rightarrow> pystr \<Rightarrow> pystr" where
  "py_lower ulower s = (if list_all (\<lambda>c. c < 128) s then map ascii_lower s else ulower s)"

section \<open>The ASCII line loop (camera_viewer.py, read_weight_ascii_loop)\<close>

text \<open>The loop's local variables that are set before the loop: the compiled pattern (as
  its search function), the unit label, the decimals setting (stripped and lowered) and
  the scale divisor.\<close>

record ascii_locals =
  loc_pattern :: "pystr \<Rightarrow> search_result"
  loc_unit :: pystr
  loc_decimals_env :: pystr
  loc_divisor :: pyfloat

datatype readline_outcome = Line "nat list" | ReadlineRaised

text \<open>One pass of the loop ends in \<open>continue\<close> without a display (\<open>Skipped\<close>), in
  the outer \<open>except\<close> clause, which sleeps 0.2 s (\<open>Caught\<close>), or with the display
  text and unit handed to the GUI (\<open>Display\<close>).\<close>

datatype ascii_outcome = Skipped | Caught py_error | Display pystr pystr

text \<open>The display text: two decimals for \<open>"auto"\<close>; else \<open>int(decimals_env)\<close>
  decimals, and two decimals when that raises (not a number, or a precision that the
  format refuses: negative, or above the largest C int). A precision for which the
  formatted text does not fit into memory is outside the model.\<close>

definition display_of :: "(nat \<Rightarrow> nat option) \<Rightarrow> pystr \<Rightarrow> pyfloat \<Rightarrow> pystr" where
  "display_of udec decimals_env v =
     (if decimals_env = str_lit ''auto'' then format_fixed 2 v
      else (case py_int udec decimals_env of
              Inl e \<Rightarrow> format_fixed 2 v
            | Inr decimals \<Rightarrow>
                if 0 \<le> decimals \<and> decimals \<le> 2147483647 then format_fixed (nat decimals) v
                else format_fixed 2 v))"

text \<open>\<open>if divisor and divisor != 1: value = value / divisor\<close>.\<close>

definition apply_divisor :: "pyfloat \<Rightarrow> pyfloat \<Rightarrow> py_error + pyfloat" where
  "apply_divisor v d = (if \<not> is_zero d \<and> d \<noteq> Finite 1 then truediv v d else Inr v)"

definition ascii_pass :: "(nat \<Rightarrow> nat option) \<Rightarrow> ascii_locals \<Rightarrow> readline_outcome \<Rightarrow> ascii_outcome" where
  "ascii_pass udec loc rl =
     (case rl of
        ReadlineRaised \<Rightarrow> Caught OtherException
      | Line data \<Rightarrow>
          if data = [] then Skipped
          else (case loc_pattern loc (strip (utf8_decode_ignore data)) of
                  NoMatch \<Rightarrow> Skipped
                | Match NoSuchGroup \<Rightarrow> Caught IndexError
                | Match Unset \<Rightarrow> Caught TypeError
                | Match (Captured value_str) \<Rightarrow>
                    (case py_float udec value_str of
                       Inl e \<Rightarrow> Skipped
                     | Inr v \<Rightarrow>
                         (case apply_divisor v (loc_divisor loc) of
                            Inl e \<Rightarrow> Caught e
                          | Inr v' \<Rightarrow> Display (display_of udec (loc_decimals_env loc) v') (loc_unit loc)))))"

section \<open>The Modbus polling loop (camera_viewer.py, read_weight_loop)\<close>

text \<open>One cycle ends with the weight handed to the display (then a sleep of 0.5 s), with
  an error response (printed, then a sleep of 1 s), or in the \<open>except\<close> clause (printed,
  then a sleep of 1 s).\<close>

datatype poll_outcome = Emitted pyfloat | ErrorResponse | Excepted py_error

definition raw_of :: "int list \<Rightarrow> py_error + int" where
  "raw_of regs = (if 0 < length regs then getitem regs 0 else Inr 0)"

text \<open>The lines under \<open>Basic conversion\<close>: \<open>raw\<close>, the divisor read from the
  environment, and the quotient.\<close>

definition convert_weight :: "(nat \<Rightarrow> nat option) \<Rightarrow> (pystr \<rightharpoonup> pystr) \<Rightarrow> int list \<Rightarrow> py_error + pyfloat" where
  "convert_weight udec env regs =
     bind_err (raw_of regs) (\<lambda>raw.
     bind_err (py_float udec (strip (getenv env ''WEIGHBRIDGE_SCALE_DIVISOR'' ''1''))) (\<lambda>d.
     bind_err (float_of_int raw) (\<lambda>x.
       truediv x (if \<not> is_zero d then d else Finite 1))))"

text \<open>The read of one cycle: the kind setting, stripped and lowered, selects the
  request.\<close>

definition cycle_read ::
  "('c, 'd) modbus_lib \<Rightarrow> (pystr \<Rightarrow> pystr) \<Rightarrow> (pystr \<rightharpoonup> pystr) \<Rightarrow> 'c \<Rightarrow> int \<Rightarrow> int \<Rightarrow> int
     \<Rightarrow> read_outcome \<times> 'c" where
  "cycle_read lib ulower env c address count unit =
     (let kind = py_lower ulower (strip (getenv env ''WEIGHBRIDGE_KIND'' ''holding''))
      in if kind = str_lit ''input''
         then read_input_registers lib c address count unit
         else read_holding_registers lib c address count unit)"

text \<open>One cycle of the loop. The settings are read from the environment in every
  cycle; an exception anywhere in the \<open>try\<close> block ends the cycle in the
  \<open>except\<close> clause.\<close>

definition read_weight_cycle ::
  "('c, 'd) modbus_lib \<Rightarrow> (nat \<Rightarrow> nat option) \<Rightarrow> (pystr \<Rightarrow> pystr) \<Rightarrow> (pystr \<rightharpoonup> pystr) \<Rightarrow> 'c
     \<Rightarrow> poll_outcome \<times> 'c" where
  "read_weight_cycle lib udec ulower env c =
     (case py_int udec (strip (getenv env ''WEIGHBRIDGE_ADDRESS'' ''0'')) of
        Inl e \<Rightarrow> (Excepted e, c)
      | Inr address \<Rightarrow>
     (case py_int udec (strip (getenv env ''WEIGHBRIDGE_COUNT'' ''2'')) of
        Inl e \<Rightarrow> (Excepted e, c)
      | Inr count \<Rightarrow>
     (case py_int udec (strip (getenv env ''WEIGHBRIDGE_SLAVE_ID'' ''1'')) of
        Inl e \<Rightarrow> (Excepted e, c)
      | Inr unit \<Rightarrow>
     (let (outcome, c') = cycle_read lib ulower env c address count unit
      in case outcome of
           RaisedModbusException \<Rightarrow> (Excepted ModbusException, c')
         | RaisedException \<Rightarrow> (Excepted OtherException, c')
         | Returned resp \<Rightarrow>
             (case resp_isError resp of
                None \<Rightarrow> (Excepted AttributeError, c')
              | Some True \<Rightarrow> (ErrorResponse, c')
              | Some False \<Rightarrow>
                  (case resp_registers resp of
                     None \<Rightarrow> (Excepted AttributeError, c')
                   | Some regs \<Rightarrow>
                       (case convert_weight udec env regs of
                          Inl e \<Rightarrow> (Excepted e, c')
                        | Inr weight_value \<Rightarrow> (Emitted weight_value, c'))))))))"

definition cycle_sleep :: "poll_outcome \<Rightarrow> rat" where
  "cycle_sleep outcome = (case outcome of Emitted w \<Rightarrow> 1 / 2 | _ \<Rightarrow> 1)"

text \<open>Example library and environment: a client that counts its requests and answers
  every read with a frame of the requested kind; no decimal digits beyond ASCII; an
  environment with no variable set, so that every setting has its default.\<close>

definition ascii_only :: "nat \<Rightarrow> nat option" where
  "ascii_only c = None"

definition default_env :: "pystr \<rightharpoonup> pystr" where
  "default_env name = None"

definition frame_lib :: "int list \<Rightarrow> (nat, real) modbus_lib" where
  "frame_lib regs =
     \<lparr>read_holding_registers = (\<lambda>c address count unit.
          (Returned \<lparr>resp_isError = Some False, resp_registers = Some regs\<rparr>, c + 1)),
      read_input_registers = (\<lambda>c address count unit. (RaisedModbusException, c + 1)),
      sleep_raises = (\<lambda>d. if d < 0 then Some ValueError else None)\<rparr>"

text \<open>An environment that sets the scale divisor to 10 (with blanks around it) and the
  kind in mixed case.\<close>

definition tenth_env :: "pystr \<rightharpoonup> pystr" where
  "tenth_env name =
     (if name = str_lit ''WEIGHBRIDGE_SCALE_DIVISOR'' then Some (str_lit '' 10 '')
      else if name = str_lit ''WEIGHBRIDGE_KIND'' then Some (str_lit ''Holding'')
      else None)"

section \<open>Properties of the register decoder\<close>

subsection \<open>The pairing loops\<close>

lemma range_step2_even:
  "range_step2 (2 * int j) (int n - 1) = map (\<lambda>k. 2 * int k) [j..<n div 2]"
proof (induction "n div 2 - j" arbitrary: j)
  case 0
  then have "\<not> 2 * int j < int n - 1" by linarith
  moreover from 0 have "[j..<n div 2] = []" by simp
  ultimately show ?case by (simp add: range_step2.simps)
next
  case (Suc d)
  then have lt: "j < n div 2" by linarith
  then have "2 * int j < int n - 1" by linarith
  moreover have "range_step2 (2 * int (Suc j)) (int n - 1) = map (\<lambda>k. 2 * int k) [Suc j..<n div 2]"
    using Suc by (intro Suc.hyps(1)) linarith
  moreover have "2 * int j + 2 = 2 * int (Suc j)" by simp
  ultimately show ?case
    using lt by (subst range_step2.simps) (simp add: upt_conv_Cons del: of_nat_Suc)
qed

lemma range_step2_zero: "range_step2 0 (int n - 1) = map (\<lambda>k. 2 * int k) [0..<n div 2]"
  using range_step2_even [of 0 n] by simp

lemma getitem_nat: "k < length xs \<Longrightarrow> getitem xs (int k) = Inr (xs ! k)"
  by (simp add: getitem_def)

lemma hi_lo_in_range:
  assumes "2 * k + 1 < length registers"
  shows "hi_lo registers big_endian (2 * int k) =
    Inr (if big_endian then (registers ! (2 * k), registers ! (2 * k + 1))
         else (registers ! (2 * k + 1), registers ! (2 * k)))"
proof -
  have a: "getitem registers (2 * int k) = Inr (registers ! (2 * k))"
    using assms getitem_nat [of "2 * k" registers] by simp
  have b: "getitem registers (2 * int k + 1) = Inr (registers ! (2 * k + 1))"
    using assms getitem_nat [of "2 * k + 1" registers] by (simp add: add.commute)
  show ?thesis by (simp add: hi_lo_def a b bind_err_def)
qed

lemma u32_loop_map:
  assumes "\<forall>k \<in> set ks. 2 * k + 1 < length registers"
  shows "u32_loop registers big_endian (map (\<lambda>k. 2 * int k) ks) acc =
    Inr (acc @ map (pair_at registers big_endian) ks)"
  using assms
proof (induction ks arbitrary: acc)
  case Nil
  show ?case by simp
next
  case (Cons k ks)
  then have "2 * k + 1 < length registers" by simp
  then show ?case
    using Cons by (simp add: hi_lo_in_range bind_err_def pair_at_def)
qed

lemma s32_loop_map:
  assumes "\<forall>k \<in> set ks. 2 * k + 1 < length registers"
  shows "s32_loop registers big_endian (map (\<lambda>k. 2 * int k) ks) acc =
    Inr (acc @ map (\<lambda>k. to_s32 (pair_at registers big_endian k)) ks)"
  using assms
proof (induction ks arbitrary: acc)
  case Nil
  show ?case by simp
next
  case (Cons k ks)
  then have "2 * k + 1 < length registers" by simp
  then show ?case
    using Cons by (simp add: hi_lo_in_range bind_err_def pair_at_def)
qed

lemma decode_u32_pairs_eq:
  "decode_u32_pairs registers big_endian =
     Inr (map (pair_at registers big_endian) [0..<length registers div 2])"
proof -
  have "\<forall>k \<in> set [0..<length registers div 2]. 2 * k + 1 < length registers"
    by auto
  then show ?thesis
    by (simp add: decode_u32_pairs_def range_step2_zero u32_loop_map)
qed

lemma decode_s32_pairs_eq:
  "decode_s32_pairs registers big_endian =
     Inr (map (\<lambda>k. to_s32 (pair_at registers big_endian k)) [0..<length registers div 2])"
proof -
  have "\<forall>k \<in> set [0..<length registers div 2]. 2 * k + 1 < length registers"
    by auto
  then show ?thesis
    by (simp add: decode_s32_pairs_def range_step2_zero s32_loop_map)
qed

subsection \<open>Bit arithmetic\<close>

lemma and_ffff: "(x::int) AND 0xFFFF = take_bit 16 x"
  by (simp add: take_bit_eq_mask mask_eq_exp_minus_1)

lemma combine_u32_arith: "combine_u32 hi lo = (hi mod 65536) * 65536 + lo mod 65536"
proof -
  have "combine_u32 hi lo = concat_bit 16 lo (take_bit 16 hi)"
    by (simp add: combine_u32_def and_ffff concat_bit_def or.commute)
  also have "\<dots> = take_bit 16 lo + push_bit 16 (take_bit 16 hi)"
    by (simp add: concat_bit_eq)
  finally show ?thesis
    by (simp add: take_bit_eq_mod push_bit_eq_mult)
qed

lemma combine_u32_bounds: "0 \<le> combine_u32 hi lo \<and> combine_u32 hi lo < 2 ^ 32"
proof -
  have "0 \<le> hi mod 65536" "hi mod 65536 < 65536" "0 \<le> lo mod 65536" "lo mod 65536 < 65536"
    by simp_all
  then show ?thesis unfolding combine_u32_arith by simp
qed

lemma and_sign32:
  assumes "0 \<le> u" "u < 2 ^ 32"
  shows "(u AND 0x80000000 \<noteq> 0) = (2 ^ 31 \<le> (u::int))"
proof -
  have "(u AND 0x80000000 \<noteq> 0) = bit u 31"
    using bit_iff_and_push_bit_not_eq_0 [of u 31] by simp
  also have "\<dots> = odd (u div 2 ^ 31)"
    by (simp add: bit_iff_odd)
  also have "\<dots> = (2 ^ 31 \<le> u)"
  proof (cases "2 ^ 31 \<le> u")
    case True
    with assms have "u div 2 ^ 31 = 1" by simp
    with True show ?thesis by simp
  next
    case False
    with assms have "u div 2 ^ 31 = 0" by simp
    with False show ?thesis by simp
  qed
  finally show ?thesis .
qed

lemma to_s32_cases:
  assumes "0 \<le> u" "u < 2 ^ 32"
  shows "to_s32 u = (if u < 2 ^ 31 then u else u - 2 ^ 32)"
  using and_sign32 [OF assms] by (auto simp: to_s32_def)

lemma pair_at_bounds: "0 \<le> pair_at registers big_endian k \<and> pair_at registers big_endian k < 2 ^ 32"
  using combine_u32_bounds by (simp add: pair_at_def)

subsection \<open>Claims about the decoder\<close>

text \<open>Claim C4. For a frame of odd length \<open>n\<close>, each of the four 32-bit decodes
  (u32 and s32, big and little endian) returns normally (\<open>Inr\<close>, never an exception)
  a list of exactly \<open>(n - 1) div 2\<close> values; value \<open>k\<close> pairs the registers
  \<open>2 * k\<close> and \<open>2 * k + 1\<close>, so the registers \<open>0 .. n - 2\<close> are paired and the
  final register is omitted: the result is that of the frame without its last register.\<close>

theorem odd_frame_drops_last_register:
  assumes "odd (length frame)"
  shows "decode_u32_pairs frame True =
           Inr (map (\<lambda>k. combine_u32 (frame ! (2 * k)) (frame ! (2 * k + 1))) [0..<(length frame - 1) div 2])
       \<and> decode_u32_pairs frame False =
           Inr (map (\<lambda>k. combine_u32 (frame ! (2 * k + 1)) (frame ! (2 * k))) [0..<(length frame - 1) div 2])
       \<and> decode_s32_pairs frame True =
           Inr (map (\<lambda>k. to_s32 (combine_u32 (frame ! (2 * k)) (frame ! (2 * k + 1)))) [0..<(length frame - 1) div 2])
       \<and> decode_s32_pairs frame False =
           Inr (map (\<lambda>k. to_s32 (combine_u32 (frame ! (2 * k + 1)) (frame ! (2 * k)))) [0..<(length frame - 1) div 2])
       \<and> (\<forall>big_endian.
            map_sum id length (decode_u32_pairs frame big_endian) = Inr ((length frame - 1) div 2)
          \<and> map_sum id length (decode_s32_pairs frame big_endian) = Inr ((length frame - 1) div 2)
          \<and> decode_u32_pairs frame big_endian = decode_u32_pairs (butlast frame) big_endian
          \<and> decode_s32_pairs frame big_endian = decode_s32_pairs (butlast frame) big_endian)"
proof -
  from assms have n: "length frame div 2 = (length frame - 1) div 2"
    by (auto elim!: oddE)
  have nth: "butlast frame ! j = frame ! j" if "j < length frame - 1" for j
    using that by (simp add: nth_butlast)
  have pa: "pair_at (butlast frame) be k = pair_at frame be k" if "k < (length frame - 1) div 2" for be k
  proof -
    from that have "2 * k + 1 < length frame - 1" using assms by (auto elim!: oddE)
    then show ?thesis by (simp add: pair_at_def nth)
  qed
  have u: "decode_u32_pairs frame be = decode_u32_pairs (butlast frame) be" for be
    by (simp add: decode_u32_pairs_eq n pa)
  have s: "decode_s32_pairs frame be = decode_s32_pairs (butlast frame) be" for be
    by (simp add: decode_s32_pairs_eq n pa)
  have "map_sum id length (decode_u32_pairs frame be) = Inr ((length frame - 1) div 2)" for be
    by (simp add: decode_u32_pairs_eq n)
  moreover have "map_sum id length (decode_s32_pairs frame be) = Inr ((length frame - 1) div 2)" for be
    by (simp add: decode_s32_pairs_eq n)
  moreover have "decode_u32_pairs frame True =
      Inr (map (\<lambda>k. combine_u32 (frame ! (2 * k)) (frame ! (2 * k + 1))) [0..<(length frame - 1) div 2])"
    by (simp add: decode_u32_pairs_eq n pair_at_def)
  moreover have "decode_u32_pairs frame False =
      Inr (map (\<lambda>k. combine_u32 (frame ! (2 * k + 1)) (frame ! (2 * k))) [0..<(length frame - 1) div 2])"
    by (simp add: decode_u32_pairs_eq n pair_at_def)
  moreover have "decode_s32_pairs frame True =
      Inr (map (\<lambda>k. to_s32 (combine_u32 (frame ! (2 * k)) (frame ! (2 * k + 1)))) [0..<(length frame - 1) div 2])"
    by (simp add: decode_s32_pairs_eq n pair_at_def)
  moreover have "decode_s32_pairs frame False =
      Inr (map (\<lambda>k. to_s32 (combine_u32 (frame ! (2 * k + 1)) (frame ! (2 * k)))) [0..<(length frame - 1) div 2])"
    by (simp add: decode_s32_pairs_eq n pair_at_def)
  ultimately show ?thesis using u s by blast
qed

text \<open>The frame \<open>[1, 0xFFFF, 7]\<close> of length 3: one value per decode.\<close>

theorem odd_frame_drops_last_register_witness:
  "odd (length [1, 0xFFFF, 7 :: int])
   \<and> decode_u32_pairs [1, 0xFFFF, 7] True = Inr [131071]
   \<and> decode_u32_pairs [1, 0xFFFF, 7] False = Inr [4294901761]
   \<and> decode_s32_pairs [1, 0xFFFF, 7] True = Inr [131071]
   \<and> decode_s32_pairs [1, 0xFFFF, 7] False = Inr [-65535]"
proof -
  have odd3: "odd (length [1, 0xFFFF, 7 :: int])" by simp
  note t = odd_frame_drops_last_register [OF odd3]
  have "decode_u32_pairs [1, 0xFFFF, 7] True = Inr [131071]"
    using t [THEN conjunct1] by (simp add: combine_u32_def)
  moreover have "decode_u32_pairs [1, 0xFFFF, 7] False = Inr [4294901761]"
    using t [THEN conjunct2, THEN conjunct1] by (simp add: combine_u32_def)
  moreover have "decode_s32_pairs [1, 0xFFFF, 7] True = Inr [131071]"
    using t [THEN conjunct2, THEN conjunct2, THEN conjunct1] by (simp add: combine_u32_def to_s32_def)
  moreover have "decode_s32_pairs [1, 0xFFFF, 7] False = Inr [-65535]"
    using t [THEN conjunct2, THEN conjunct2, THEN conjunct2, THEN conjunct1]
    by (simp add: combine_u32_def to_s32_def)
  ultimately show ?thesis using odd3 by blast
qed

text \<open>Claim C6. For every frame and every even index \<open>i\<close> with \<open>i + 1\<close> inside the
  frame, the big-endian u32 decode holds \<open>((frame[i] & 0xFFFF) << 16) | (frame[i+1] & 0xFFFF)\<close>
  at position \<open>i div 2\<close>, and the little-endian decode holds the same combination with
  the two registers swapped. For the frame \<open>[0x0001, 0x0002]\<close> the big-endian decode
  is \<open>[65538]\<close> and the little-endian decode is \<open>[131073]\<close>.\<close>

theorem u32_pairs_combine_high_low:
  "(\<forall>i. even i \<longrightarrow> i + 1 < length frame \<longrightarrow>
      (\<exists>be_values le_values.
          decode_u32_pairs frame True = Inr be_values
        \<and> decode_u32_pairs frame False = Inr le_values
        \<and> i div 2 < length be_values \<and> i div 2 < length le_values
        \<and> be_values ! (i div 2) = push_bit 16 (frame ! i AND 0xFFFF) OR (frame ! (i + 1) AND 0xFFFF)
        \<and> le_values ! (i div 2) = push_bit 16 (frame ! (i + 1) AND 0xFFFF) OR (frame ! i AND 0xFFFF)))
   \<and> decode_u32_pairs [0x0001, 0x0002] True = Inr [65538]
   \<and> decode_u32_pairs [0x0001, 0x0002] False = Inr [131073]"
proof -
  have "\<exists>be_values le_values.
          decode_u32_pairs frame True = Inr be_values
        \<and> decode_u32_pairs frame False = Inr le_values
        \<and> i div 2 < length be_values \<and> i div 2 < length le_values
        \<and> be_values ! (i div 2) = push_bit 16 (frame ! i AND 0xFFFF) OR (frame ! (i + 1) AND 0xFFFF)
        \<and> le_values ! (i div 2) = push_bit 16 (frame ! (i + 1) AND 0xFFFF) OR (frame ! i AND 0xFFFF)"
    if "even i" "i + 1 < length frame" for i
  proof -
    from that obtain k where k: "i = 2 * k" by (auto elim: evenE)
    with that have lt: "k < length frame div 2" by simp
    then show ?thesis
      by (simp add: decode_u32_pairs_eq k pair_at_def combine_u32_def)
  qed
  moreover have "decode_u32_pairs [0x0001, 0x0002] True = Inr [65538]"
    by (simp add: decode_u32_pairs_eq pair_at_def combine_u32_def)
  moreover have "decode_u32_pairs [0x0001, 0x0002] False = Inr [131073]"
    by (simp add: decode_u32_pairs_eq pair_at_def combine_u32_def)
  ultimately show ?thesis by blast
qed

theorem u32_pairs_combine_high_low_witness:
  "even (2::nat) \<and> 2 + 1 < length [0x12, 0x34, 0xABCD, 0x00EF :: int]
   \<and> (\<exists>be_values le_values.
          decode_u32_pairs [0x12, 0x34, 0xABCD, 0x00EF] True = Inr be_values
        \<and> decode_u32_pairs [0x12, 0x34, 0xABCD, 0x00EF] False = Inr le_values
        \<and> be_values ! 1 = 0xABCD00EF \<and> le_values ! 1 = 0x00EFABCD)"
proof -
  have e: "even (2::nat)" and l: "2 + 1 < length [0x12, 0x34, 0xABCD, 0x00EF :: int]" by simp_all
  have "\<exists>be_values le_values.
          decode_u32_pairs [0x12, 0x34, 0xABCD, 0x00EF] True = Inr be_values
        \<and> decode_u32_pairs [0x12, 0x34, 0xABCD, 0x00EF] False = Inr le_values
        \<and> 2 div 2 < length be_values \<and> (2::nat) div 2 < length le_values
        \<and> be_values ! (2 div 2) = push_bit 16 ([0x12, 0x34, 0xABCD, 0x00EF] ! 2 AND 0xFFFF) OR ([0x12, 0x34, 0xABCD, 0x00EF] ! (2 + 1) AND 0xFFFF)
        \<and> le_values ! (2 div 2) = push_bit 16 ([0x12, 0x34, 0xABCD, 0x00EF] ! (2 + 1) AND 0xFFFF) OR ([0x12, 0x34, 0xABCD, 0x00EF] ! 2 AND 0xFFFF)"
    using u32_pairs_combine_high_low [of "[0x12, 0x34, 0xABCD, 0x00EF]"] e l by blast
  then show ?thesis using e l by auto
qed

text \<open>Claim C9. For every frame and either endianness, the s32 and the u32 decode both
  return, with lists of equal length; at every index the signed value is congruent to the
  unsigned value modulo \<open>2 ^ 32\<close>, lies in \<open>[- 2 ^ 31, 2 ^ 31 - 1]\<close>, and equals
  the unsigned value when that is below \<open>2 ^ 31\<close> and the unsigned value minus
  \<open>2 ^ 32\<close> otherwise.\<close>

theorem s32_matches_u32_two_complement:
  "\<exists>us ss. decode_u32_pairs frame big_endian = Inr us
        \<and> decode_s32_pairs frame big_endian = Inr ss
        \<and> length ss = length us
        \<and> (\<forall>i < length us.
               ss ! i mod 2 ^ 32 = us ! i mod 2 ^ 32
             \<and> - (2 ^ 31) \<le> ss ! i \<and> ss ! i \<le> 2 ^ 31 - 1
             \<and> ss ! i = (if us ! i < 2 ^ 31 then us ! i else us ! i - 2 ^ 32))"
proof -
  let ?us = "map (pair_at frame big_endian) [0..<length frame div 2]"
  let ?ss = "map (\<lambda>k. to_s32 (pair_at frame big_endian k)) [0..<length frame div 2]"
  have "ss_i mod 2 ^ 32 = u mod 2 ^ 32 \<and> - (2 ^ 31) \<le> ss_i \<and> ss_i \<le> 2 ^ 31 - 1
      \<and> ss_i = (if u < 2 ^ 31 then u else u - 2 ^ 32)"
    if "u = pair_at frame big_endian i" "ss_i = to_s32 u" for i u ss_i
  proof -
    from that pair_at_bounds [of frame big_endian i] have b: "0 \<le> u" "u < 2 ^ 32" by simp_all
    have c: "ss_i = (if u < 2 ^ 31 then u else u - 2 ^ 32)"
      using to_s32_cases [OF b] that by simp
    have "(u - 2 ^ 32) mod 2 ^ 32 = u mod 2 ^ 32" by simp
    with c b show ?thesis by auto
  qed
  then have "\<forall>i < length ?us.
               ?ss ! i mod 2 ^ 32 = ?us ! i mod 2 ^ 32
             \<and> - (2 ^ 31) \<le> ?ss ! i \<and> ?ss ! i \<le> 2 ^ 31 - 1
             \<and> ?ss ! i = (if ?us ! i < 2 ^ 31 then ?us ! i else ?us ! i - 2 ^ 32)"
    by simp
  then show ?thesis
    unfolding decode_u32_pairs_eq decode_s32_pairs_eq by (intro exI conjI) (rule refl, rule refl, simp, assumption)
qed

theorem s32_matches_u32_two_complement_witness:
  "\<exists>us ss. decode_u32_pairs [0xFFFF, 0xFFFE, 0, 5] True = Inr us
        \<and> decode_s32_pairs [0xFFFF, 0xFFFE, 0, 5] True = Inr ss
        \<and> us = [4294967294, 5] \<and> ss = [-2, 5]
        \<and> 0 < length us \<and> ss ! 0 mod 2 ^ 32 = us ! 0 mod 2 ^ 32
        \<and> ss ! 0 = us ! 0 - 2 ^ 32"
proof -
  obtain us ss where h: "decode_u32_pairs [0xFFFF, 0xFFFE, 0, 5] True = Inr us"
      "decode_s32_pairs [0xFFFF, 0xFFFE, 0, 5] True = Inr ss"
      "\<forall>i < length us. ss ! i mod 2 ^ 32 = us ! i mod 2 ^ 32
             \<and> - (2 ^ 31) \<le> ss ! i \<and> ss ! i \<le> 2 ^ 31 - 1
             \<and> ss ! i = (if us ! i < 2 ^ 31 then us ! i else us ! i - 2 ^ 32)"
    using s32_matches_u32_two_complement [of "[0xFFFF, 0xFFFE, 0, 5]" True] by blast
  have u: "us = [4294967294, 5]"
    using h(1) by (simp add: decode_u32_pairs_eq pair_at_def combine_u32_def upt_rec)
  have s: "ss = [-2, 5]"
    using h(2) by (simp add: decode_s32_pairs_eq pair_at_def combine_u32_def to_s32_def upt_rec)
  from h(3) u have "ss ! 0 mod 2 ^ 32 = us ! 0 mod 2 ^ 32 \<and> ss ! 0 = (if us ! 0 < 2 ^ 31 then us ! 0 else us ! 0 - 2 ^ 32)"
    by simp
  with u s h(1,2) show ?thesis by simp
qed

section \<open>Properties of the register probe\<close>

lemma triples_loop_append:
  "triples_loop env kind delay (xs @ ys) st =
     (case triples_loop env kind delay xs st of
        Inl x \<Rightarrow> Inl x
      | Inr st' \<Rightarrow> triples_loop env kind delay ys st')"
  by (induction xs arbitrary: st) (auto split: sum.splits)

lemma counts_loop_flat:
  "counts_loop env kind delay unit address counts st =
     triples_loop env kind delay (map (\<lambda>count. (unit, address, count)) counts) st"
  by (induction counts arbitrary: st) (auto split: sum.splits)

lemma address_loop_flat:
  "address_loop env kind delay unit addresses counts st =
     triples_loop env kind delay
       (concat (map (\<lambda>address. map (\<lambda>count. (unit, address, count)) counts) addresses)) st"
  by (induction addresses arbitrary: st)
     (auto simp: triples_loop_append counts_loop_flat split: sum.splits)

lemma units_loop_flat:
  "units_loop env kind delay units addresses counts st =
     triples_loop env kind delay
       (concat (map (\<lambda>unit. concat (map (\<lambda>address. map (\<lambda>count. (unit, address, count)) counts)
                                    addresses)) units)) st"
  by (induction units arbitrary: st)
     (auto simp: triples_loop_append address_loop_flat split: sum.splits)

lemma probe_flat:
  "probe env c units lo hi counts delay kind =
     triples_loop env kind delay (sweep_triples units lo hi counts)
       \<lparr>results = [], events = [], client = c\<rparr>"
  by (simp add: probe_def sweep_triples_def units_loop_flat)

lemma attempts_append: "attempts (xs @ ys) = attempts xs @ attempts ys"
  by (induction xs rule: attempts.induct) simp_all

lemma try_read_events:
  "\<exists>prints. events (try_read env kind unit address count st) =
      events st @ ReadAttempt (if kind = str_lit ''holding'' then Holding else Input) unit address count # prints
    \<and> attempts prints = [] \<and> filter (\<lambda>e. \<not> is_print e) prints = []"
  by (auto simp: try_read_def Let_def split: prod.splits read_outcome.splits option.splits sum.splits)

lemma attempt_reached:
  "attempts (events (reached (attempt env kind delay unit address count st))) =
      attempts (events st) @ [(unit, address, count)]
   \<and> filter (\<lambda>e. \<not> is_print e) (events (reached (attempt env kind delay unit address count st))) =
      filter (\<lambda>e. \<not> is_print e) (events st) @ attempt_events kind delay (unit, address, count)"
proof -
  obtain prints where p: "events (try_read env kind unit address count st) =
      events st @ ReadAttempt (if kind = str_lit ''holding'' then Holding else Input) unit address count # prints"
    "attempts prints = []" "filter (\<lambda>e. \<not> is_print e) prints = []"
    using try_read_events by blast
  have "events (reached (attempt env kind delay unit address count st)) =
      events (try_read env kind unit address count st) @ [Sleep delay]"
    by (simp add: attempt_def reached_def Let_def split: option.splits)
  with p show ?thesis
    by (simp add: attempts_append attempt_events_def)
qed

lemma attempt_Inr:
  "sleep_raises env delay = None \<Longrightarrow>
     \<exists>st1. attempt env kind delay unit address count st = Inr st1
         \<and> reached (attempt env kind delay unit address count st) = st1"
  by (simp add: attempt_def reached_def Let_def)

lemma attempt_Inl:
  "sleep_raises env delay = Some e \<Longrightarrow>
     \<exists>st1. attempt env kind delay unit address count st = Inl (e, st1)
         \<and> reached (attempt env kind delay unit address count st) = st1"
  by (simp add: attempt_def reached_def Let_def)

lemma triples_loop_ok:
  assumes "sleep_raises env delay = None"
  shows "\<exists>st'. triples_loop env kind delay ts st = Inr st'
     \<and> attempts (events st') = attempts (events st) @ ts
     \<and> filter (\<lambda>e. \<not> is_print e) (events st') =
         filter (\<lambda>e. \<not> is_print e) (events st) @ concat (map (attempt_events kind delay) ts)"
proof (induction ts arbitrary: st)
  case Nil
  show ?case by simp
next
  case (Cons t ts)
  obtain unit address count where t: "t = (unit, address, count)" by (cases t)
  from attempt_Inr [OF assms, of kind unit address count st]
  obtain st1 where st1: "attempt env kind delay unit address count st = Inr st1"
      "reached (attempt env kind delay unit address count st) = st1"
    by blast
  from Cons [of st1] obtain st' where st': "triples_loop env kind delay ts st1 = Inr st'"
     "attempts (events st') = attempts (events st1) @ ts"
     "filter (\<lambda>e. \<not> is_print e) (events st') =
         filter (\<lambda>e. \<not> is_print e) (events st1) @ concat (map (attempt_events kind delay) ts)"
    by blast
  have "triples_loop env kind delay (t # ts) st = Inr st'"
    using st1(1) st'(1) by (simp add: t)
  then show ?case
    using st'(2,3) attempt_reached [of env kind delay unit address count st] st1(2) by (simp add: t)
qed

lemma triples_loop_raises:
  assumes "sleep_raises env delay = Some e"
  shows "filter (\<lambda>e. \<not> is_print e) (events (reached (triples_loop env kind delay ts st))) =
         filter (\<lambda>e. \<not> is_print e) (events st) @ concat (map (attempt_events kind delay) (take 1 ts))
     \<and> ((\<exists>st'. triples_loop env kind delay ts st = Inr st') = (ts = []))"
proof (cases ts)
  case Nil
  then show ?thesis by (simp add: reached_def)
next
  case (Cons t rest)
  obtain unit address count where t: "t = (unit, address, count)" by (cases t)
  from attempt_Inl [OF assms, of kind unit address count st]
  obtain st1 where st1: "attempt env kind delay unit address count st = Inl (e, st1)"
      "reached (attempt env kind delay unit address count st) = st1"
    by blast
  have "triples_loop env kind delay ts st = Inl (e, st1)"
    using st1(1) by (simp add: Cons t)
  moreover have "reached (Inl (e, st1)) = st1" by (simp add: reached_def)
  ultimately show ?thesis
    using attempt_reached [of env kind delay unit address count st] st1(2) by (simp add: Cons t)
qed



text \<open>Claim C7. Leaving the printed lines aside, the trace of a sweep is, for each triple in
  order, the read attempt followed by exactly one \<open>time.sleep(delay)\<close>, whatever the
  outcome of the read; so one sleep stands between any attempt and the next. When the sleep
  itself raises (a negative delay), the trace ends with that first sleep, and this is the
  only way for a sweep not to return.\<close>

theorem sleep_once_after_every_attempt:
  "filter (\<lambda>e. \<not> is_print e) (events (reached (probe env c units lo hi counts delay kind))) =
     concat (map (\<lambda>(unit, address, count).
                    [ReadAttempt (if kind = str_lit ''holding'' then Holding else Input) unit address count,
                     Sleep delay])
        (if sleep_raises env delay = None then sweep_triples units lo hi counts
         else take 1 (sweep_triples units lo hi counts)))
   \<and> ((\<exists>st. probe env c units lo hi counts delay kind = Inr st) =
        (sleep_raises env delay = None \<or> sweep_triples units lo hi counts = []))"
proof -
  have f: "(\<lambda>(unit, address, count).
                    [ReadAttempt (if kind = str_lit ''holding'' then Holding else Input) unit address count,
                     Sleep delay]) = attempt_events kind delay"
    by (auto simp: attempt_events_def fun_eq_iff)
  show ?thesis
  proof (cases "sleep_raises env delay")
    case None
    from triples_loop_ok [OF None, of kind "sweep_triples units lo hi counts" "\<lparr>results = [], events = [], client = c\<rparr>"]
    show ?thesis unfolding f by (auto simp: probe_flat None reached_def)
  next
    case (Some e)
    from triples_loop_raises [OF Some, of kind "sweep_triples units lo hi counts" "\<lparr>results = [], events = [], client = c\<rparr>"]
    show ?thesis unfolding f by (simp add: probe_flat Some)
  qed
qed


theorem sleep_once_after_every_attempt_witness:
  "filter (\<lambda>e. \<not> is_print e)
        (events (reached (probe timeout_env 0 [1, 2] 0 1 [1] (1 / 20) (str_lit ''holding'')))) =
     [ReadAttempt Holding 1 0 1, Sleep (1 / 20), ReadAttempt Holding 1 1 1, Sleep (1 / 20),
      ReadAttempt Holding 2 0 1, Sleep (1 / 20), ReadAttempt Holding 2 1 1, Sleep (1 / 20)]
   \<and> filter (\<lambda>e. \<not> is_print e)
        (events (reached (probe timeout_env 0 [1, 2] 0 1 [1] (- 1) (str_lit ''input'')))) =
     [ReadAttempt Input 1 0 1, Sleep (- 1)]"
proof -
  have up: "[0..1::int] = [0, 1]" by (simp add: upto.simps)
  have tr: "sweep_triples [1, 2] 0 1 [1] = [(1, 0, 1), (1, 1, 1), (2, 0, 1), (2, 1, 1)]"
    by (simp add: sweep_triples_def up)
  have ne: "str_lit ''input'' \<noteq> str_lit ''holding''" by (simp add: str_lit_def)
  have a: "sleep_raises timeout_env (1 / 20) = None" and b: "sleep_raises timeout_env (- 1) \<noteq> None"
    by (simp_all add: timeout_env_def)
  show ?thesis
    using sleep_once_after_every_attempt [of timeout_env 0 "[1, 2]" 0 1 "[1]" "1 / 20" "str_lit ''holding''"]
      sleep_once_after_every_attempt [of timeout_env 0 "[1, 2]" 0 1 "[1]" "- 1" "str_lit ''input''"]
    by (simp add: tr a b ne)
qed

section \<open>Properties of the unit specification parser\<close>

lemma split_on_nonempty: "split_on sep s \<noteq> []"
  by (induction s) (auto split: list.splits)
















text \<open>A literal with a sign is not a unit literal for \<open>parse_units\<close>: the hyphen of
  \<open>"-5"\<close> is taken for a range with an empty lower bound.\<close>

lemma parse_units_negative_literal: "parse_units udec (str_lit ''-5'') = Inl ValueError"
  by (simp add: parse_units_def str_lit_def strip_def is_space_def split_once_def py_int_def
      bind_err_def)




section \<open>Properties of the polling loops\<close>

subsection \<open>The float model\<close>

lemma nat_bits_lower: "0 < n \<Longrightarrow> 2 ^ (nat_bits n - 1) \<le> n"
proof (induction n rule: nat_bits.induct)
  case (1 n)
  show ?case
  proof (cases "n div 2 = 0")
    case True
    with 1(2) have "n = 1" by (simp add: div_eq_0_iff)
    then show ?thesis by (simp add: nat_bits.simps)
  next
    case False
    then have pos: "0 < n div 2" by simp
    with 1 have ih: "2 ^ (nat_bits (n div 2) - 1) \<le> n div 2" by simp
    from pos have b: "0 < nat_bits (n div 2)" by (subst nat_bits.simps) simp
    have "nat_bits n = Suc (nat_bits (n div 2))" using 1(2) by (subst nat_bits.simps) simp
    then have "(2::nat) ^ (nat_bits n - 1) = 2 * 2 ^ (nat_bits (n div 2) - 1)"
      using b by (cases "nat_bits (n div 2)") simp_all
    also have "\<dots> \<le> 2 * (n div 2)" using ih by simp
    also have "\<dots> \<le> n" by simp
    finally show ?thesis .
  qed
qed

lemma nat_bits_upper: "n < 2 ^ nat_bits n"
proof (induction n rule: nat_bits.induct)
  case (1 n)
  show ?case
  proof (cases "n = 0")
    case True
    then show ?thesis by simp
  next
    case False
    with 1 have "n div 2 < 2 ^ nat_bits (n div 2)" by simp
    then have "n < 2 * 2 ^ nat_bits (n div 2)" by linarith
    moreover have "nat_bits n = Suc (nat_bits (n div 2))" using False by (subst nat_bits.simps) simp
    ultimately show ?thesis by simp
  qed
qed

lemma pow2_pos: "0 < pow2 e"
  by (simp add: pow2_def)

lemma pow2_add: "pow2 (a + b) = pow2 a * pow2 b"
proof -
  have "pow2 e = 2 powi e" for e
    by (simp add: pow2_def power_int_def inverse_eq_divide power_one_over)
  then show ?thesis by (simp add: power_int_add)
qed

lemma pow2_nat: "pow2 (int k) = 2 ^ k"
  by (simp add: pow2_def)

lemma pow2_diff: "pow2 (int a - int b) = 2 ^ a / 2 ^ b"
proof -
  have "pow2 (int a - int b) * pow2 (int b) = pow2 (int a)"
    using pow2_add [of "int a - int b" "int b"] by simp
  then show ?thesis by (simp add: pow2_nat field_simps)
qed

text \<open>The exponent found by \<open>floor_log2\<close> is the binary exponent of its argument.\<close>

lemma floor_log2_bracket:
  assumes "0 < q"
  shows "pow2 (floor_log2 q) \<le> q \<and> q < pow2 (floor_log2 q + 1)"
proof -
  obtain a b where ab: "quotient_of q = (a, b)" by (cases "quotient_of q")
  then have b: "0 < b" and q: "q = of_int a / of_int b"
    using quotient_of_denom_pos [OF ab] quotient_of_div [OF ab] by simp_all
  with assms have a: "0 < a" by (simp add: zero_less_divide_iff)
  define na nb where "na = nat a" and "nb = nat b"
  have pos: "0 < na" "0 < nb" using a b by (simp_all add: na_def nb_def)
  have qn: "q = of_nat na / of_nat nb"
    using a b by (simp add: q na_def nb_def)
  define d where "d = int (nat_bits na) - int (nat_bits nb)"
  have fl: "floor_log2 q = (if pow2 d \<le> q then d else d - 1)"
    by (simp add: floor_log2_def ab d_def na_def nb_def Let_def)
  have bpos: "0 < nat_bits na" "0 < nat_bits nb"
    using pos by (subst nat_bits.simps, simp)+
  have lo: "pow2 (d - 1) \<le> q"
  proof -
    have "(2::rat) ^ (nat_bits na - 1) \<le> of_nat na"
      using nat_bits_lower [OF pos(1)] by (metis of_nat_le_iff of_nat_numeral of_nat_power)
    moreover have "(of_nat nb :: rat) < 2 ^ nat_bits nb"
      using nat_bits_upper [of nb] by (metis of_nat_less_iff of_nat_numeral of_nat_power)
    ultimately have "(2::rat) ^ (nat_bits na - 1) / 2 ^ nat_bits nb \<le> of_nat na / of_nat nb"
      using pos by (intro frac_le) simp_all
    moreover have "pow2 (d - 1) = 2 ^ (nat_bits na - 1) / 2 ^ nat_bits nb"
    proof -
      have "d - 1 = int (nat_bits na - 1) - int (nat_bits nb)"
        using bpos by (simp add: d_def)
      then show ?thesis by (simp only: pow2_diff)
    qed
    ultimately show ?thesis by (simp add: qn)
  qed
  have hi: "q < pow2 (d + 1)"
  proof -
    have "(of_nat na :: rat) < 2 ^ nat_bits na"
      using nat_bits_upper [of na] by (metis of_nat_less_iff of_nat_numeral of_nat_power)
    moreover have "(2::rat) ^ (nat_bits nb - 1) \<le> of_nat nb"
      using nat_bits_lower [OF pos(2)] by (metis of_nat_le_iff of_nat_numeral of_nat_power)
    ultimately have "of_nat na / of_nat nb < (2::rat) ^ nat_bits na / 2 ^ (nat_bits nb - 1)"
      using pos by (intro frac_less) simp_all
    moreover have "pow2 (d + 1) = 2 ^ nat_bits na / 2 ^ (nat_bits nb - 1)"
    proof -
      have "d + 1 = int (nat_bits na) - int (nat_bits nb - 1)"
        using bpos by (simp add: d_def)
      then show ?thesis by (simp only: pow2_diff)
    qed
    ultimately show ?thesis by (simp add: qn)
  qed
  show ?thesis
  proof (cases "pow2 d \<le> q")
    case True
    with fl hi show ?thesis by simp
  next
    case False
    with fl lo show ?thesis by simp
  qed
qed

subsection \<open>The loops\<close>

text \<open>The example line \<open>"ST,+00012.34,kg\r\n"\<close>, step by step: decoded, stripped, searched,
  parsed and formatted.\<close>

lemma line_decoded:
  "utf8_decode_ignore (str_lit ''ST,+00012.34,kg'' @ [13, 10]) = str_lit ''ST,+00012.34,kg'' @ [13, 10]"
  by (simp add: str_lit_def)

lemma line_stripped:
  "strip (str_lit ''ST,+00012.34,kg'' @ [13, 10]) = str_lit ''ST,+00012.34,kg''"
  by (simp add: str_lit_def strip_def is_space_def)

lemma line_token:
  "default_search udec (str_lit ''ST,+00012.34,kg'') = Match (Captured (str_lit ''+00012.34''))"
  by (simp add: str_lit_def number_at_def is_digit_def digit_of_def)

lemma floor_log2_1234: "floor_log2 (617 / 50) = 3"
  by code_simp

lemma token_double: "to_double False (617 / 50) = Finite (3473401212609495 / 281474976710656)"
  by code_simp

lemma token_value:
  "py_float udec (str_lit ''+00012.34'') = Inr (Finite (3473401212609495 / 281474976710656))"
proof -
  have run1: "digit_run udec (str_lit ''00012.34'') = ([0, 0, 0, 1, 2], str_lit ''.34'')"
    by (simp add: str_lit_def digit_of_def)
  have run2: "digit_run udec (str_lit ''34'') = ([3, 4], [])"
    by (simp add: str_lit_def digit_of_def)
  have "py_float udec (str_lit ''+00012.34'') = Inr (to_double False (617 / 50))"
    unfolding py_float_def
    apply (simp add: str_lit_def num_space_def is_space_def ascii_lower_def Let_def)
    apply (simp add: digit_of_def exponent_of_def digits_nat_def pow10_def)
    done
  then show ?thesis by (simp add: token_double)
qed

lemma token_display:
  "format_fixed 2 (Finite (3473401212609495 / 281474976710656)) = str_lit ''12.34''"
  by code_simp

text \<open>Integers below \<open>2 ^ 53\<close> are binary64 values: \<open>float\<close> converts them exactly.\<close>

lemma nat_bits_le: "n < 2 ^ k \<Longrightarrow> nat_bits n \<le> k"
proof (induction k arbitrary: n)
  case 0
  then show ?case by (simp add: nat_bits.simps)
next
  case (Suc k)
  then have "n div 2 < 2 ^ k" by simp
  then have "nat_bits (n div 2) \<le> k" by (rule Suc.IH)
  then show ?case by (subst nat_bits.simps) simp
qed

lemma nat_bits_one: "nat_bits (Suc 0) = 1"
  by (simp add: nat_bits.simps)

lemma floor_log2_int_le:
  assumes "0 < m" "m < 2 ^ 53"
  shows "floor_log2 (of_int m) \<le> 52"
proof -
  from assms have "nat m < 2 ^ 53" by (simp add: nat_less_iff)
  then have "nat_bits (nat m) \<le> 53" by (rule nat_bits_le)
  then show ?thesis
    by (simp add: floor_log2_def nat_bits_one Let_def)
qed

lemma round_half_even_int: "round_half_even (of_int k) = k"
  by (simp add: round_half_even_def)

lemma pow2_neg_mult:
  assumes "q \<le> 0"
  shows "of_int m / pow2 q = of_int (m * 2 ^ nat (- q))"
    and "of_int (m * 2 ^ nat (- q)) * pow2 q = of_int m"
proof -
  have "pow2 q = 1 / 2 ^ nat (- q)"
    using assms by (cases "q = 0") (simp_all add: pow2_def)
  then show "of_int m / pow2 q = of_int (m * 2 ^ nat (- q))"
    and "of_int (m * 2 ^ nat (- q)) * pow2 q = of_int m"
    by simp_all
qed

lemma to_double_int_exact:
  assumes "0 < m" "m < 2 ^ 53"
  shows "to_double negative (of_int m) = Finite (if negative then - of_int m else of_int m)"
proof -
  define q where "q = max (floor_log2 (of_int m) - 52) (- 1074)"
  have q: "q \<le> 0" using floor_log2_int_le [OF assms] by (simp add: q_def)
  have r: "of_int (round_half_even (of_int m / pow2 q)) * pow2 q = of_int m"
    by (simp add: pow2_neg_mult [OF q] round_half_even_int del: of_int_mult of_int_power)
  have small: "\<not> pow2 1024 \<le> (of_int m :: rat)"
  proof -
    have "(of_int m :: rat) < of_int (2 ^ 53)" using assms(2) by (simp only: of_int_less_iff)
    also have "\<dots> \<le> pow2 1024" by (simp add: pow2_def)
    finally show ?thesis by simp
  qed
  have nz: "(of_int m :: rat) \<noteq> 0" using assms(1) by simp
  show ?thesis
    unfolding to_double_def Let_def q_def [symmetric] r using small nz by simp
qed

lemma float_of_int_exact:
  assumes "\<bar>i\<bar> < 2 ^ 53"
  shows "float_of_int i = Inr (Finite (of_int i))"
proof (cases "i = 0")
  case True
  then show ?thesis by (simp add: float_of_int_def to_double_def signed_zero_def)
next
  case False
  with assms have m: "0 < \<bar>i\<bar>" "\<bar>i\<bar> < 2 ^ 53" by simp_all
  have "to_double (i < 0) (of_int \<bar>i\<bar>) = Finite (of_int i)"
    unfolding to_double_int_exact [OF m] by (cases "i < 0") simp_all
  then show ?thesis by (simp add: float_of_int_def)
qed

text \<open>Division raises only for a zero divisor.\<close>

lemma truediv_nonzero:
  "\<not> is_zero d \<Longrightarrow> \<exists>w. truediv x d = Inr w"
  by (simp add: truediv_def)

lemma truediv_of_zero:
  assumes "\<not> is_zero d" "d \<noteq> NaN"
  shows "\<exists>w. truediv (Finite 0) d = Inr w \<and> is_zero w"
  using assms
  by (auto simp: truediv_def is_zero_def is_infinite_def signed_zero_def to_double_def magnitude_def)

lemma apply_divisor_no_zero_division: "apply_divisor v d \<noteq> Inl ZeroDivisionError"
  by (simp add: apply_divisor_def truediv_def)

lemma apply_divisor_zero: "is_zero d \<Longrightarrow> apply_divisor v d = Inr v"
  by (simp add: apply_divisor_def)

lemma cycle_after_read:
  assumes "py_int udec (strip (getenv env ''WEIGHBRIDGE_ADDRESS'' ''0'')) = Inr address"
    and "py_int udec (strip (getenv env ''WEIGHBRIDGE_COUNT'' ''2'')) = Inr count"
    and "py_int udec (strip (getenv env ''WEIGHBRIDGE_SLAVE_ID'' ''1'')) = Inr unit"
    and "cycle_read lib ulower env c address count unit = (Returned resp, c')"
    and "resp_isError resp = Some False"
    and "resp_registers resp = Some regs"
  shows "read_weight_cycle lib udec ulower env c =
     (case convert_weight udec env regs of Inl e \<Rightarrow> (Excepted e, c') | Inr w \<Rightarrow> (Emitted w, c'))"
  using assms(4)
  by (simp add: read_weight_cycle_def assms(1,2,3,5,6))

lemma convert_weight_raw:
  assumes "raw_of regs = Inr raw" "\<bar>raw\<bar> < 2 ^ 53"
    and "py_float udec (strip (getenv env ''WEIGHBRIDGE_SCALE_DIVISOR'' ''1'')) = Inr d"
  shows "\<exists>w. truediv (Finite (of_int raw)) (if is_zero d then Finite 1 else d) = Inr w
      \<and> convert_weight udec env regs = Inr w"
proof -
  have nz: "\<not> is_zero (if is_zero d then Finite 1 else d)" by (simp add: is_zero_def)
  from truediv_nonzero [OF nz] obtain w
    where w: "truediv (Finite (of_int raw)) (if is_zero d then Finite 1 else d) = Inr w" by blast
  have "convert_weight udec env regs = Inr w"
    using w
    by (cases "is_zero d")
       (simp_all add: convert_weight_def assms(1,3) float_of_int_exact [OF assms(2)] bind_err_def)
  with w show ?thesis by blast
qed

text \<open>Claim C1. Let the cycle's request settings be integers, let its read return a response
  that is not an error and whose registers are \<open>r0 # rest\<close> (a non-empty frame), and let
  the scale divisor setting be a float \<open>d\<close>. Then the cycle emits a weight, and the
  weight is the float quotient of register 0 by \<open>d\<close>, or by 1 when \<open>d\<close> is zero. The
  registers after index 0 take no part: the conversion of the frame is that of the frame
  \<open>[r0]\<close>. (A register is a 16-bit value; the statement holds for every integer below
  \<open>2 ^ 53\<close> in magnitude, which \<open>float\<close> converts exactly.)\<close>

theorem poll_emits_register_zero_over_divisor:
  assumes "py_int udec (strip (getenv env ''WEIGHBRIDGE_ADDRESS'' ''0'')) = Inr address"
    and "py_int udec (strip (getenv env ''WEIGHBRIDGE_COUNT'' ''2'')) = Inr count"
    and "py_int udec (strip (getenv env ''WEIGHBRIDGE_SLAVE_ID'' ''1'')) = Inr unit"
    and "cycle_read lib ulower env c address count unit = (Returned resp, c')"
    and "resp_isError resp = Some False"
    and "resp_registers resp = Some (r0 # rest)"
    and "\<bar>r0\<bar> < 2 ^ 53"
    and "py_float udec (strip (getenv env ''WEIGHBRIDGE_SCALE_DIVISOR'' ''1'')) = Inr d"
  shows "\<exists>w. truediv (Finite (of_int r0)) (if is_zero d then Finite 1 else d) = Inr w
      \<and> read_weight_cycle lib udec ulower env c = (Emitted w, c')
      \<and> convert_weight udec env (r0 # rest) = convert_weight udec env [r0]"
proof -
  have raw: "raw_of (r0 # rest) = Inr r0" "raw_of [r0] = Inr r0"
    by (simp_all add: raw_of_def getitem_def)
  from convert_weight_raw [OF raw(1) assms(7,8)] obtain w
    where w: "truediv (Finite (of_int r0)) (if is_zero d then Finite 1 else d) = Inr w"
      "convert_weight udec env (r0 # rest) = Inr w" by blast
  from convert_weight_raw [OF raw(2) assms(7,8)] w(1)
  have one: "convert_weight udec env [r0] = Inr w" by auto
  have "read_weight_cycle lib udec ulower env c = (Emitted w, c')"
    using cycle_after_read [OF assms(1-6)] by (simp add: w(2))
  with w one show ?thesis by simp
qed

text \<open>Claim C2, amended. For a read that completes without error and returns an empty
  register payload, the cycle is not skipped: it emits a sample computed from the raw
  value 0, the float quotient of 0 by the divisor (by 1 for a zero divisor). That sample
  is a zero unless the divisor is NaN.\<close>

theorem empty_payload_emits_zero_sample:
  assumes "py_int udec (strip (getenv env ''WEIGHBRIDGE_ADDRESS'' ''0'')) = Inr address"
    and "py_int udec (strip (getenv env ''WEIGHBRIDGE_COUNT'' ''2'')) = Inr count"
    and "py_int udec (strip (getenv env ''WEIGHBRIDGE_SLAVE_ID'' ''1'')) = Inr unit"
    and "cycle_read lib ulower env c address count unit = (Returned resp, c')"
    and "resp_isError resp = Some False"
    and "resp_registers resp = Some []"
    and "py_float udec (strip (getenv env ''WEIGHBRIDGE_SCALE_DIVISOR'' ''1'')) = Inr d"
  shows "\<exists>w. truediv (Finite 0) (if is_zero d then Finite 1 else d) = Inr w
      \<and> read_weight_cycle lib udec ulower env c = (Emitted w, c')
      \<and> (d \<noteq> NaN \<longrightarrow> is_zero w)"
proof -
  have raw: "raw_of [] = Inr 0" by (simp add: raw_of_def)
  have small: "\<bar>0 :: int\<bar> < 2 ^ 53" by simp
  from convert_weight_raw [OF raw small assms(7)] obtain w
    where w: "truediv (Finite 0) (if is_zero d then Finite 1 else d) = Inr w"
      "convert_weight udec env [] = Inr w" by auto
  have cyc: "read_weight_cycle lib udec ulower env c = (Emitted w, c')"
    using cycle_after_read [OF assms(1-6)] by (simp add: w(2))
  have "is_zero w" if "d \<noteq> NaN"
  proof -
    have "\<not> is_zero (if is_zero d then Finite 1 else d)" "(if is_zero d then Finite 1 else d) \<noteq> NaN"
      using that by (simp_all add: is_zero_def)
    from truediv_of_zero [OF this] w(1) show ?thesis by auto
  qed
  with w cyc show ?thesis by blast
qed

lemma default_request:
  "py_int ascii_only (strip (getenv default_env ''WEIGHBRIDGE_ADDRESS'' ''0'')) = Inr 0"
  "py_int ascii_only (strip (getenv default_env ''WEIGHBRIDGE_COUNT'' ''2'')) = Inr 2"
  "py_int ascii_only (strip (getenv default_env ''WEIGHBRIDGE_SLAVE_ID'' ''1'')) = Inr 1"
  by (simp_all add: getenv_def default_env_def str_lit_def strip_def is_space_def py_int_def
      num_space_def digit_of_def int_max_str_digits_def)

lemma default_divisor:
  "py_float ascii_only (strip (getenv default_env ''WEIGHBRIDGE_SCALE_DIVISOR'' ''1'')) = Inr (Finite 1)"
proof -
  have "to_double False (of_int 1) = Finite 1"
    by (subst to_double_int_exact) simp_all
  then have t: "to_double False 1 = Finite 1" by simp
  show ?thesis
    unfolding py_float_def
    apply (simp add: getenv_def default_env_def str_lit_def strip_def is_space_def num_space_def
        ascii_lower_def Let_def)
    apply (simp add: digit_of_def exponent_of_def digits_nat_def pow10_def t)
    done
qed

lemma default_read:
  "cycle_read (frame_lib regs) id default_env 0 0 2 1 =
     (Returned \<lparr>resp_isError = Some False, resp_registers = Some regs\<rparr>, 1)"
  by (simp add: cycle_read_def frame_lib_def getenv_def default_env_def py_lower_def str_lit_def
      strip_def is_space_def ascii_lower_def)

lemma tenth_request:
  "py_int ascii_only (strip (getenv tenth_env ''WEIGHBRIDGE_ADDRESS'' ''0'')) = Inr 0"
  "py_int ascii_only (strip (getenv tenth_env ''WEIGHBRIDGE_COUNT'' ''2'')) = Inr 2"
  "py_int ascii_only (strip (getenv tenth_env ''WEIGHBRIDGE_SLAVE_ID'' ''1'')) = Inr 1"
  by (simp_all add: getenv_def tenth_env_def str_lit_def strip_def is_space_def py_int_def
      num_space_def digit_of_def int_max_str_digits_def)

lemma tenth_divisor:
  "py_float ascii_only (strip (getenv tenth_env ''WEIGHBRIDGE_SCALE_DIVISOR'' ''1'')) = Inr (Finite 10)"
proof -
  have "to_double False (of_int 10) = Finite 10"
    by (subst to_double_int_exact) simp_all
  then have t: "to_double False 10 = Finite 10" by simp
  show ?thesis
    unfolding py_float_def
    apply (simp add: getenv_def tenth_env_def str_lit_def strip_def is_space_def num_space_def
        ascii_lower_def Let_def)
    apply (simp add: digit_of_def exponent_of_def digits_nat_def pow10_def t)
    done
qed

lemma tenth_read:
  "cycle_read (frame_lib regs) id tenth_env 0 0 2 1 =
     (Returned \<lparr>resp_isError = Some False, resp_registers = Some regs\<rparr>, 1)"
  by (simp add: cycle_read_def frame_lib_def getenv_def tenth_env_def py_lower_def str_lit_def
      strip_def is_space_def ascii_lower_def)

lemma quotient_1234_10:
  "truediv (Finite 1234) (Finite 10) = Inr (Finite (4341751515761869 / 35184372088832))"
  by code_simp

text \<open>Register 1234 with the divisor setting \<open>" 10 "\<close> gives the binary64 value of
  123.4; with the default divisor 1 it gives 1234.\<close>

theorem poll_emits_register_zero_over_divisor_witness:
  "read_weight_cycle (frame_lib [1234, 99]) ascii_only id tenth_env 0 =
     (Emitted (Finite (4341751515761869 / 35184372088832)), 1)
   \<and> read_weight_cycle (frame_lib [1234, 5, 6]) ascii_only id default_env 0 = (Emitted (Finite 1234), 1)"
proof -
  have small: "\<bar>1234 :: int\<bar> < 2 ^ 53" by simp
  have "\<exists>w. truediv (Finite (of_int 1234)) (if is_zero (Finite 10) then Finite 1 else Finite 10) = Inr w
      \<and> read_weight_cycle (frame_lib [1234, 99]) ascii_only id tenth_env 0 = (Emitted w, 1)
      \<and> convert_weight ascii_only tenth_env [1234, 99] = convert_weight ascii_only tenth_env [1234]"
    by (rule poll_emits_register_zero_over_divisor
        [OF tenth_request tenth_read _ _ small tenth_divisor]) simp_all
  then have a: "read_weight_cycle (frame_lib [1234, 99]) ascii_only id tenth_env 0 =
     (Emitted (Finite (4341751515761869 / 35184372088832)), 1)"
    by (auto simp: is_zero_def quotient_1234_10)
  have one: "truediv (Finite 1234) (Finite 1) = Inr (Finite 1234)"
    by code_simp
  have "\<exists>w. truediv (Finite (of_int 1234)) (if is_zero (Finite 1) then Finite 1 else Finite 1) = Inr w
      \<and> read_weight_cycle (frame_lib [1234, 5, 6]) ascii_only id default_env 0 = (Emitted w, 1)
      \<and> convert_weight ascii_only default_env [1234, 5, 6] = convert_weight ascii_only default_env [1234]"
    by (rule poll_emits_register_zero_over_divisor
        [OF default_request default_read _ _ small default_divisor]) simp_all
  then have b: "read_weight_cycle (frame_lib [1234, 5, 6]) ascii_only id default_env 0 = (Emitted (Finite 1234), 1)"
    by (auto simp: one)
  from a b show ?thesis by simp
qed

text \<open>Claim C2 says that a read which completes without error but with an empty register
  payload produces no sample. The code takes \<open>raw = 0\<close> for an empty payload
  (\<open>result.registers[0] if len(result.registers) > 0 else 0\<close>) and emits a sample: here,
  with the default settings, the sample \<open>0.0\<close>.\<close>

theorem empty_payload_skipped_counterexample:
  "read_weight_cycle (frame_lib []) ascii_only id default_env 0 = (Emitted (Finite 0), 1)"
proof -
  have "convert_weight ascii_only default_env [] = Inr (Finite 0)"
    by (simp add: convert_weight_def raw_of_def default_divisor bind_err_def float_of_int_def
        to_double_def signed_zero_def truediv_def is_zero_def is_infinite_def is_negative_def
        magnitude_def)
  then show ?thesis
    by (simp add: cycle_after_read [OF default_request default_read])
qed

theorem empty_payload_emits_zero_sample_witness:
  "\<exists>w. read_weight_cycle (frame_lib []) ascii_only id tenth_env 0 = (Emitted w, 1) \<and> is_zero w"
proof -
  have "\<exists>w. truediv (Finite 0) (if is_zero (Finite 10) then Finite 1 else Finite 10) = Inr w
      \<and> read_weight_cycle (frame_lib []) ascii_only id tenth_env 0 = (Emitted w, 1)
      \<and> (Finite 10 \<noteq> NaN \<longrightarrow> is_zero w)"
    by (rule empty_payload_emits_zero_sample [OF tenth_request tenth_read _ _ tenth_divisor]) simp_all
  then show ?thesis by auto
qed

text \<open>The divisor setting \<open>"0"\<close> is the float \<open>0.0\<close>.\<close>

lemma zero_text: "py_float udec (str_lit ''0'') = Inr (Finite 0)"
  unfolding py_float_def
  apply (simp add: str_lit_def num_space_def is_space_def ascii_lower_def Let_def)
  apply (simp add: digit_of_def exponent_of_def digits_nat_def pow10_def to_double_def signed_zero_def)
  done

text \<open>Claim C10. A pass of the ASCII line loop never ends in a ZeroDivisionError, whatever
  the divisor. A divisor configured as \<open>"0"\<close> is a zero, and with a divisor of zero
  (\<open>0.0\<close> or \<open>-0.0\<close>) the division is skipped: for every line whose text matches
  the pattern with a token that \<open>float\<close> parses to \<open>v\<close>, the pass displays \<open>v\<close>
  itself, formatted, with the unit.\<close>

theorem ascii_zero_divisor_skips_division:
  "ascii_pass udec loc rl \<noteq> Caught ZeroDivisionError
   \<and> (\<exists>d. py_float udec (str_lit ''0'') = Inr d \<and> is_zero d)
   \<and> (is_zero (loc_divisor loc) \<longrightarrow>
        (\<forall>data value_str v.
            rl = Line data \<and> data \<noteq> []
          \<and> loc_pattern loc (strip (utf8_decode_ignore data)) = Match (Captured value_str)
          \<and> py_float udec value_str = Inr v
          \<longrightarrow> apply_divisor v (loc_divisor loc) = Inr v
            \<and> ascii_pass udec loc rl = Display (display_of udec (loc_decimals_env loc) v) (loc_unit loc)))"
proof -
  have "ascii_pass udec loc rl \<noteq> Caught ZeroDivisionError"
    using apply_divisor_no_zero_division
    by (auto simp: ascii_pass_def split: readline_outcome.splits search_result.splits group1.splits sum.splits)
  moreover have "apply_divisor v (loc_divisor loc) = Inr v
      \<and> ascii_pass udec loc rl = Display (display_of udec (loc_decimals_env loc) v) (loc_unit loc)"
    if "is_zero (loc_divisor loc)" "rl = Line data" "data \<noteq> []"
      "loc_pattern loc (strip (utf8_decode_ignore data)) = Match (Captured value_str)"
      "py_float udec value_str = Inr v" for data value_str v
    using that by (simp add: ascii_pass_def apply_divisor_zero)
  moreover have "\<exists>d. py_float udec (str_lit ''0'') = Inr d \<and> is_zero d"
    by (simp add: zero_text is_zero_def)
  ultimately show ?thesis by blast
qed

theorem ascii_zero_divisor_skips_division_witness:
  "is_zero NegZero
   \<and> ascii_pass ascii_only
        \<lparr>loc_pattern = default_search ascii_only, loc_unit = str_lit ''kg'',
         loc_decimals_env = str_lit ''auto'', loc_divisor = NegZero\<rparr>
        (Line (str_lit ''ST,+00012.34,kg'' @ [13, 10]))
      = Display (str_lit ''12.34'') (str_lit ''kg'')"
proof -
  let ?loc = "\<lparr>loc_pattern = default_search ascii_only, loc_unit = str_lit ''kg'',
         loc_decimals_env = str_lit ''auto'', loc_divisor = NegZero\<rparr>"
  let ?data = "str_lit ''ST,+00012.34,kg'' @ [13, 10]"
  have z: "is_zero (loc_divisor ?loc)" by (simp add: is_zero_def)
  have h: "Line ?data = Line ?data \<and> ?data \<noteq> []
      \<and> loc_pattern ?loc (strip (utf8_decode_ignore ?data)) = Match (Captured (str_lit ''+00012.34''))
      \<and> py_float ascii_only (str_lit ''+00012.34'') = Inr (Finite (3473401212609495 / 281474976710656))"
    by (simp add: line_decoded line_stripped line_token token_value)
  from ascii_zero_divisor_skips_division [of ascii_only ?loc "Line ?data"] z h
  have "ascii_pass ascii_only ?loc (Line ?data) =
      Display (display_of ascii_only (loc_decimals_env ?loc) (Finite (3473401212609495 / 281474976710656)))
        (loc_unit ?loc)"
    by blast
  then show ?thesis
    by (simp add: display_of_def token_display is_zero_def)
qed

text \<open>Claim C3. For the line \<open>"ST,+00012.34,kg\r\n"\<close>, the default pattern, divisor 1 and
  decimals \<open>"auto"\<close>, one pass of the ASCII line loop extracts the first numeric token
  \<open>"+00012.34"\<close>, parses it to the binary64 value nearest to 12.34, divides by nothing
  and displays exactly \<open>"12.34"\<close>. This holds for every table of non-ASCII digits and
  every unit label.\<close>

theorem ascii_line_example_formats_12_34:
  "default_search udec (strip (utf8_decode_ignore (str_lit ''ST,+00012.34,kg'' @ [13, 10])))
     = Match (Captured (str_lit ''+00012.34''))
   \<and> py_float udec (str_lit ''+00012.34'') = Inr (Finite (3473401212609495 / 281474976710656))
   \<and> apply_divisor (Finite (3473401212609495 / 281474976710656)) (Finite 1)
     = Inr (Finite (3473401212609495 / 281474976710656))
   \<and> ascii_pass udec
        \<lparr>loc_pattern = default_search udec, loc_unit = unit_label,
         loc_decimals_env = str_lit ''auto'', loc_divisor = Finite 1\<rparr>
        (Line (str_lit ''ST,+00012.34,kg'' @ [13, 10]))
      = Display (str_lit ''12.34'') unit_label"
proof -
  have a: "default_search udec (strip (utf8_decode_ignore (str_lit ''ST,+00012.34,kg'' @ [13, 10])))
     = Match (Captured (str_lit ''+00012.34''))"
    by (simp add: line_decoded line_stripped line_token)
  have b: "apply_divisor v (Finite 1) = Inr v" for v
    by (simp add: apply_divisor_def)
  have ne: "str_lit ''ST,+00012.34,kg'' @ [13, 10] \<noteq> []" by simp
  have "ascii_pass udec
        \<lparr>loc_pattern = default_search udec, loc_unit = unit_label,
         loc_decimals_env = str_lit ''auto'', loc_divisor = Finite 1\<rparr>
        (Line (str_lit ''ST,+00012.34,kg'' @ [13, 10]))
      = Display (str_lit ''12.34'') unit_label"
    unfolding ascii_pass_def using ne
    by (simp add: a token_value b display_of_def token_display)
  with a b token_value show ?thesis by simp
qed

end
